theory Spec2Isabelle
  imports Complex_Main "HOL-Library.Product_Lexorder" "HOL-Library.Sublist"
begin

section \<open>Triathlon race analyzer: the data transform of app.py\<close>

text \<open>
  The program reads a race-timing table, turns the six time columns into seconds, adds five
  cumulative columns, and draws one polyline per athlete, either by rank or by gap to the
  leader. The development follows app.py function by function: \<open>time_to_seconds\<close>,
  \<open>process_data\<close>, \<open>create_figure\<close> and \<open>update_graph\<close>.

  Conventions. A cell of a column as the CSV reader delivers it is a \<open>cell\<close>: NaN for an
  empty field, a string, or a number or a truth value when the reader took the whole column
  for numbers. A number cell of a computed column is \<open>int option\<close>, with \<open>None\<close> for NaN.
  A character of a string is a code point from 0 to 255. A Python exception that leaves a
  function is the \<open>Inl\<close> of a sum type.

  Numbers. pandas keeps a computed column as int64 when no cell is NaN and as float64
  otherwise. Both hold every whole number from \<open>- 2 ^ 53\<close> to \<open>2 ^ 53\<close> as it is, and
  both add and subtract two such numbers without error when the result is in that range
  again; outside it int64 wraps and float64 rounds. The model computes with the integers, so
  it is the program inside the range only: every statement below about the value of a sum or
  of a difference carries the bound that keeps it there (\<open>exact_range\<close>). Statements about
  which cells are NaN, and about the order of the cells, need no bound.
\<close>

subsection \<open>Python and pandas primitives\<close>

datatype exn = ValueError | TypeError | AttributeError

datatype cell = NaN | Str string | Num real | Bool bool

type_synonym num = "int option"

definition exact_range :: "int \<Rightarrow> bool" where
  "exact_range v \<longleftrightarrow> - (2 ^ 53) \<le> v \<and> v \<le> 2 ^ 53"

text \<open>Sequencing of computations that may raise.\<close>

definition and_then :: "exn + 'a \<Rightarrow> ('a \<Rightarrow> exn + 'b) \<Rightarrow> exn + 'b" where
  "and_then r f = (case r of Inl e \<Rightarrow> Inl e | Inr v \<Rightarrow> f v)"

text \<open>\<open>s.split(sep)\<close> for a separator of one character: never empty, one part more than
  there are separators.\<close>

fun split_on :: "char \<Rightarrow> string \<Rightarrow> string list" where
  "split_on sep [] = [[]]"
| "split_on sep (c # cs) =
     (if c = sep then [] # split_on sep cs
      else (c # hd (split_on sep cs)) # tl (split_on sep cs))"

text \<open>
  \<open>int(s)\<close> on a string, base 10: white space is skipped at both ends, one sign may lead,
  and the digits may be grouped by single underscores. Anything else raises ValueError.
  The white space that \<open>int\<close> skips is the space, the characters 0x09 to 0x0D and, beyond
  ASCII, the next-line character 0x85 and the no-break space 0xA0; the separators 0x1C to 0x1F,
  which \<open>str.strip\<close> removes, are not skipped. The digits are \<open>0\<close> to \<open>9\<close>.
  A literal of more than 4300 digits, sign, white space and underscores not counted, raises
  ValueError too: that is the limit that the interpreter puts on the conversion by default.
\<close>

definition is_space :: "char \<Rightarrow> bool" where
  "is_space c = (c \<in> set [CHR '' '', CHR 0x09, CHR 0x0A, CHR 0x0B, CHR 0x0C, CHR 0x0D,
                              CHR 0x85, CHR 0xA0])"

definition strip :: "string \<Rightarrow> string" where
  "strip s = rev (dropWhile is_space (rev (dropWhile is_space s)))"

definition is_digit :: "char \<Rightarrow> bool" where
  "is_digit c = (c \<in> set ''0123456789'')"

definition digit_val :: "char \<Rightarrow> nat" where
  "digit_val c = of_char c - 48"

definition digits_value :: "string \<Rightarrow> nat" where
  "digits_value ds = foldl (\<lambda>a c. 10 * a + digit_val c) 0 ds"

definition int_literal :: "string \<Rightarrow> bool" where
  "int_literal body = (\<forall>g \<in> set (split_on CHR ''_'' body). g \<noteq> [] \<and> (\<forall>c \<in> set g. is_digit c))"

definition py_int :: "string \<Rightarrow> exn + int" where
  "py_int s =
     (let t = strip s;
          negative = (t \<noteq> [] \<and> hd t = CHR ''-'');
          body = (if t \<noteq> [] \<and> (hd t = CHR ''-'' \<or> hd t = CHR ''+'') then tl t else t);
          digits = concat (split_on CHR ''_'' body)
      in if int_literal body \<and> length digits \<le> 4300
         then Inr ((if negative then - 1 else 1) * int (digits_value digits))
         else Inl ValueError)"

subsection \<open>time_to_seconds\<close>

text \<open>
  The argument is a cell as the CSV reader delivers it. NaN passes the \<open>pd.isna\<close> test. A
  number or a truth value, which the reader delivers when a whole column reads as numbers,
  passes neither test of the first line and has no \<open>split\<close>: AttributeError. For a string the
  branches are those of the source: the \<open>'00:00:00'\<close> test, three parts, two parts, and the
  final \<open>else\<close>, which converts the first part whatever the number of parts.
\<close>

definition time_to_seconds :: "cell \<Rightarrow> exn + num" where
  "time_to_seconds time_str =
     (case time_str of
        NaN \<Rightarrow> Inr None
      | Num _ \<Rightarrow> Inl AttributeError
      | Bool _ \<Rightarrow> Inl AttributeError
      | Str s \<Rightarrow>
          if s = ''00:00:00'' then Inr None
          else
            (let parts = split_on CHR '':'' s in
             if length parts = 3 then
               and_then (py_int (parts ! 0)) (\<lambda>h.
               and_then (py_int (parts ! 1)) (\<lambda>m.
               and_then (py_int (parts ! 2)) (\<lambda>sec.
                 Inr (Some (h * 3600 + m * 60 + sec)))))
             else if length parts = 2 then
               and_then (py_int (parts ! 0)) (\<lambda>m.
               and_then (py_int (parts ! 1)) (\<lambda>sec.
                 Inr (Some (m * 60 + sec))))
             else
               and_then (py_int (parts ! 0)) (\<lambda>v. Inr (Some v))))"

subsection \<open>The table\<close>

text \<open>
  The upload is taken to carry the columns of the input format (\<open>Athlete First Name\<close>,
  \<open>Athlete Last Name\<close>, \<open>Position\<close>, the five segments and \<open>Total Time\<close>), so no column
  lookup fails. A row has one field per family of columns. The six time columns are
  overwritten in place by the source, text by seconds: \<open>Text\<close> is the column as read, a
  \<open>cell\<close> per row, and \<open>Secs\<close> the same column after the conversion. \<open>Cum seg\<close> is the column \<open>seg_Cum\<close>,
  \<open>Cum_Rank seg\<close> is \<open>seg_Cum_Rank\<close> and \<open>Cum_Gap seg\<close> is \<open>seg_Cum_Gap\<close>.
\<close>

datatype segment = Swim | T1 | Bike | T2 | Run

datatype time_column = Seg segment | Total_Time

record row =
  Athlete_First_Name :: "string option"
  Athlete_Last_Name :: "string option"
  Position :: num
  Text :: "time_column \<Rightarrow> cell"
  Secs :: "time_column \<Rightarrow> num"
  Cum :: "segment \<Rightarrow> num"
  Cum_Rank :: "segment \<Rightarrow> num"
  Cum_Gap :: "segment \<Rightarrow> num"

type_synonym dataframe = "row list"

definition segments :: "segment list" where
  "segments = [Swim, T1, Bike, T2, Run]"

definition time_columns :: "time_column list" where
  "time_columns = [Seg Swim, Seg T1, Seg Bike, Seg T2, Seg Run, Total_Time]"

text \<open>A row as the reader delivers it, from the name cells, the position and the six time
  cells in the order of \<open>time_columns\<close>; the columns that the program adds are not there yet.\<close>

definition csv_row :: "string option \<Rightarrow> string option \<Rightarrow> num \<Rightarrow> cell list \<Rightarrow> row" where
  "csv_row first_name last_name pos cells =
     \<lparr>Athlete_First_Name = first_name, Athlete_Last_Name = last_name, Position = pos,
      Text = (\<lambda>col. cells ! (case col of Seg Swim \<Rightarrow> 0 | Seg T1 \<Rightarrow> 1 | Seg Bike \<Rightarrow> 2
                                 | Seg T2 \<Rightarrow> 3 | Seg Run \<Rightarrow> 4 | Total_Time \<Rightarrow> 5)),
      Secs = (\<lambda>_. None), Cum = (\<lambda>_. None), Cum_Rank = (\<lambda>_. None), Cum_Gap = (\<lambda>_. None)\<rparr>"

definition seg_name :: "segment \<Rightarrow> string" where
  "seg_name seg = (case seg of Swim \<Rightarrow> ''Swim'' | T1 \<Rightarrow> ''T1'' | Bike \<Rightarrow> ''Bike''
                   | T2 \<Rightarrow> ''T2'' | Run \<Rightarrow> ''Run'')"

text \<open>Arithmetic on number cells: NaN on either side gives NaN, and two numbers give their
  sum or difference, which is the program's result when operands and result are in
  \<open>exact_range\<close>.\<close>

definition num_add :: "num \<Rightarrow> num \<Rightarrow> num" where
  "num_add a b = (case (a, b) of (Some x, Some y) \<Rightarrow> Some (x + y) | _ \<Rightarrow> None)"

definition num_sub :: "num \<Rightarrow> num \<Rightarrow> num" where
  "num_sub a b = (case (a, b) of (Some x, Some y) \<Rightarrow> Some (x - y) | _ \<Rightarrow> None)"

text \<open>\<open>Series.min()\<close> and \<open>Series.max()\<close> skip NaN and give NaN when nothing is left;
  \<open>df[cols].max().max()\<close> is the maximum of the column maxima.\<close>

definition present :: "num list \<Rightarrow> int list" where
  "present col = List.map_filter (\<lambda>v. v) col"

definition col_min :: "num list \<Rightarrow> num" where
  "col_min col = (case present col of [] \<Rightarrow> None | v # vs \<Rightarrow> Some (fold min vs v))"

definition col_max :: "num list \<Rightarrow> num" where
  "col_max col = (case present col of [] \<Rightarrow> None | v # vs \<Rightarrow> Some (fold max vs v))"

definition frame_max :: "num list list \<Rightarrow> num" where
  "frame_max cols = col_max (map col_max cols)"

text \<open>
  Sorting with NaN last, for \<open>rank(na_option='bottom')\<close> and
  \<open>sort_values(na_position='last')\<close>: the key of a cell orders every number before NaN.
\<close>

definition nan_last :: "num \<Rightarrow> bool \<times> int" where
  "nan_last v = (case v of None \<Rightarrow> (True, 0) | Some x \<Rightarrow> (False, x))"

text \<open>
  \<open>Series.rank(method='min', na_option='bottom')\<close>: the cells are put in ascending order,
  NaN at the bottom, and a cell gets the place, counted from 1, of the first member of its
  group of equal cells.
\<close>

definition rank_min_bottom :: "num list \<Rightarrow> num list" where
  "rank_min_bottom col =
     (let ordered = sort (map nan_last col)
      in map (\<lambda>v. Some (1 + int (length (takeWhile (\<lambda>k. k \<noteq> nan_last v) ordered)))) col)"

text \<open>\<open>df.sort_values('Position', na_position='last')\<close>; rows with equal positions keep
  their order here, which no statement below depends on.\<close>

definition sort_values_Position :: "dataframe \<Rightarrow> dataframe" where
  "sort_values_Position df = sort_key (\<lambda>r. nan_last (Position r)) df"

text \<open>Formatting: a NaN cell prints as \<open>nan\<close>; \<open>{y:.0f}\<close> prints a whole number of
  \<open>exact_range\<close> in decimal.\<close>

definition fmt_text :: "string option \<Rightarrow> string" where
  "fmt_text c = (case c of None \<Rightarrow> ''nan'' | Some s \<Rightarrow> s)"

fun show_nat :: "nat \<Rightarrow> string" where
  "show_nat n = (if n < 10 then [char_of (48 + n)]
                 else show_nat (n div 10) @ [char_of (48 + n mod 10)])"

declare show_nat.simps [simp del]

definition fmt_0f :: "num \<Rightarrow> string" where
  "fmt_0f y = (case y of None \<Rightarrow> ''nan''
               | Some v \<Rightarrow> if v < 0 then CHR ''-'' # show_nat (nat (- v)) else show_nat (nat v))"

text \<open>Truthiness of an optional string: \<open>None\<close> and the empty string are false.\<close>

definition truthy :: "string option \<Rightarrow> bool" where
  "truthy s = (s \<noteq> None \<and> s \<noteq> Some [])"

text \<open>\<open>sub in s\<close> and \<open>s.split(sep)[0]\<close>.\<close>

fun contains :: "string \<Rightarrow> string \<Rightarrow> bool" where
  "contains sub [] = (sub = [])"
| "contains sub (c # cs) = (prefix sub (c # cs) \<or> contains sub cs)"


subsection \<open>process_data\<close>

text \<open>
  The upload arrives as the data URL that the upload component builds, so splitting it at the
  comma and decoding its base64 part succeed. \<open>contents\<close> stands for what the \<open>try\<close> block
  meets when it decodes the bytes as UTF-8 and reads them as CSV: an exception with its text,
  or the table. The conversion of the time columns and the cumulative sums come after the
  \<open>try\<close> block, so an exception of \<open>time_to_seconds\<close> leaves \<open>process_data\<close>.
  \<open>df[col].apply(time_to_seconds)\<close> stops at the first cell that raises; otherwise the column
  becomes the results, \<open>None\<close> stored as NaN and a whole number of \<open>exact_range\<close> stored as
  it is.
\<close>

datatype upload = Unreadable string | Table dataframe

fun apply_time_to_seconds :: "time_column \<Rightarrow> dataframe \<Rightarrow> exn + dataframe" where
  "apply_time_to_seconds col [] = Inr []"
| "apply_time_to_seconds col (r # rs) =
     and_then (time_to_seconds (Text r col)) (\<lambda>v.
     and_then (apply_time_to_seconds col rs) (\<lambda>rs'.
       Inr (r\<lparr>Secs := (Secs r)(col := v)\<rparr> # rs')))"

fun convert_columns :: "time_column list \<Rightarrow> dataframe \<Rightarrow> exn + dataframe" where
  "convert_columns [] df = Inr df"
| "convert_columns (col # cols) df =
     and_then (apply_time_to_seconds col df) (convert_columns cols)"

definition assign_Cum :: "segment \<Rightarrow> (row \<Rightarrow> num) \<Rightarrow> dataframe \<Rightarrow> dataframe" where
  "assign_Cum seg f df = map (\<lambda>r. r\<lparr>Cum := (Cum r)(seg := f r)\<rparr>) df"

definition cumulative_times :: "dataframe \<Rightarrow> dataframe" where
  "cumulative_times df =
     fold (\<lambda>i d. assign_Cum (segments ! i)
                    (\<lambda>r. num_add (Cum r (segments ! (i - 1))) (Secs r (Seg (segments ! i)))) d)
          [1..<length segments]
          (assign_Cum Swim (\<lambda>r. Secs r (Seg Swim)) df)"

definition process_data :: "upload \<Rightarrow> string \<Rightarrow> exn + (dataframe option \<times> string option)" where
  "process_data contents filename =
     (if contains ''csv'' filename then
        (case contents of
           Unreadable e \<Rightarrow> Inr (None, Some e)
         | Table df \<Rightarrow>
             and_then (convert_columns time_columns df) (\<lambda>df'.
               Inr (Some (cumulative_times df'), None)))
      else Inr (None, Some ''Unsupported file type. Please upload a CSV file.''))"

subsection \<open>create_figure\<close>

text \<open>
  A trace is one athlete's polyline: the points, the name, the hover label of each point,
  the place \<open>i\<close> in drawing order that selects the colour (\<open>color_palette[i % len]\<close>, for
  the line and for the markers), and the opacity. The constant attributes of a trace (mode,
  widths, sizes) and of the layout (fonts, margins, background) are left out.
\<close>

record trace =
  trace_x :: "real list"
  trace_y :: "num list"
  trace_name :: string
  trace_text :: "string list"
  trace_color :: nat
  trace_opacity :: real

record figure =
  fig_data :: "trace list"
  fig_title :: string
  yaxis_title :: string
  yaxis_autorange_reversed :: bool
  yaxis_range :: "(num \<times> num) option"


definition x_values :: "real list" where
  "x_values = [0, 1 / 2, 3 / 5, 2, 21 / 10, 3]"

text \<open>The two branches that add the view's columns, one column per segment.\<close>

definition add_ranks :: "dataframe \<Rightarrow> dataframe" where
  "add_ranks df =
     fold (\<lambda>seg d. map2 (\<lambda>r k. r\<lparr>Cum_Rank := (Cum_Rank r)(seg := k)\<rparr>) d
                      (rank_min_bottom (map (\<lambda>r. Cum r seg) d)))
          segments df"

definition add_gaps :: "dataframe \<Rightarrow> dataframe" where
  "add_gaps df =
     fold (\<lambda>seg d. let leader_time = col_min (map (\<lambda>r. Cum r seg) d)
                    in map (\<lambda>r. r\<lparr>Cum_Gap := (Cum_Gap r)(seg := num_sub (Cum r seg) leader_time)\<rparr>) d)
          segments df"

text \<open>The inner loop over the segments: it appends a point per segment and breaks at the
  first NaN.\<close>

fun segment_loop :: "(segment \<Rightarrow> num) \<Rightarrow> (nat \<times> segment) list \<Rightarrow> num list \<times> real list
                       \<Rightarrow> num list \<times> real list" where
  "segment_loop val [] acc = acc"
| "segment_loop val ((j, seg) # rest) (y_values, athlete_x_values) =
     (case val seg of
        None \<Rightarrow> (y_values, athlete_x_values)
      | Some v \<Rightarrow> segment_loop val rest
                   (y_values @ [Some v], athlete_x_values @ [x_values ! (j + 1)]))"

definition athlete_name :: "row \<Rightarrow> string" where
  "athlete_name athlete =
     fmt_text (Athlete_First_Name athlete) @ '' '' @ fmt_text (Athlete_Last_Name athlete)"

definition athlete_trace :: "string \<Rightarrow> num \<Rightarrow> string \<Rightarrow> string option \<Rightarrow> nat \<times> row \<Rightarrow> trace" where
  "athlete_trace calculation_mode max_rank y_axis_title hovered_athlete ia =
     (let i = fst ia; athlete = snd ia;
          name = athlete_name athlete;
          walked = segment_loop
                     (\<lambda>seg. if calculation_mode = ''position'' then Cum_Rank athlete seg
                             else Cum_Gap athlete seg)
                     (enumerate 0 segments) ([Some 0], [x_values ! 0]);
          padded = (if calculation_mode = ''position'' \<and> length (fst walked) < length segments + 1
                    then (fst walked @ [max_rank], snd walked @ [last (snd walked)])
                    else walked);
          y_values = fst padded; athlete_x_values = snd padded;
          opacity = (if hovered_athlete = Some name then 1
                     else if truthy hovered_athlete then 1 / 5 else 3 / 5);
          hover_text = map (\<lambda>(seg, y). name @ ''<br>Segment: '' @ seg @ ''<br>'' @ y_axis_title
                                          @ '': '' @ fmt_0f y)
                           (zip (''Start'' # map seg_name segments) y_values)
      in \<lparr>trace_x = athlete_x_values, trace_y = y_values, trace_name = name,
          trace_text = hover_text, trace_color = i, trace_opacity = opacity\<rparr>)"

text \<open>
  \<open>max_rank\<close> exists in position mode only and \<open>max_gap\<close> in the other mode only; each is
  read in its own mode only. Every mode other than \<open>position\<close> takes the gap branch, and the
  axis range is set when the mode is \<open>time_gap\<close>.
\<close>

definition create_figure :: "dataframe \<Rightarrow> string \<Rightarrow> string \<Rightarrow> string option \<Rightarrow> figure" where
  "create_figure df calculation_mode filename hovered_athlete =
     (let position = (calculation_mode = ''position'');
          viewed = (if position then add_ranks df else add_gaps df);
          max_rank = (if position then frame_max (map (\<lambda>seg. map (\<lambda>r. Cum_Rank r seg) viewed) segments)
                      else None);
          max_gap = (if position then None
                     else frame_max (map (\<lambda>seg. map (\<lambda>r. Cum_Gap r seg) viewed) segments));
          y_axis_title = (if position then ''Rank'' else ''Time Gap to Leader (seconds)'');
          kept = (if position then viewed else filter (\<lambda>r. Cum r Run \<noteq> None) viewed);
          ordered = sort_values_Position kept
      in \<lparr>fig_data = map (athlete_trace calculation_mode max_rank y_axis_title hovered_athlete)
                      (enumerate 0 ordered),
          fig_title = ''Visualizing: '' @ filename,
          yaxis_title = y_axis_title,
          yaxis_autorange_reversed = position,
          yaxis_range = (if calculation_mode = ''time_gap'' then Some (max_gap, Some 0) else None)\<rparr>)"

subsection \<open>update_graph\<close>




subsection \<open>Auxiliary notions\<close>

text \<open>A race of three: Ann finishes every segment first, Bea follows, Cy has no Bike time
  and nothing after it.\<close>

definition three_athletes :: dataframe where
  "three_athletes =
     [csv_row (Some ''Ann'') (Some ''A'') (Some 1)
        [Str ''00:10:00'', Str ''01:00'', Str ''00:30:00'', Str ''00:50'', Str ''00:20:00'',
         Str ''01:01:50''],
      csv_row (Some ''Bea'') (Some ''B'') (Some 2)
        [Str ''00:11:00'', Str ''01:10'', Str ''00:31:00'', Str ''00:55'', Str ''00:21:00'',
         Str ''01:05:05''],
      csv_row (Some ''Cy'') (Some ''C'') None
        [Str ''00:10:30'', Str ''01:05'', NaN, Str ''00:00:00'', Str ''00:00:00'', NaN]]"

text \<open>\<open>converted cols r r'\<close>: row \<open>r'\<close> is row \<open>r\<close> with the columns \<open>cols\<close> converted to
  seconds and nothing else changed.\<close>

definition converted :: "time_column list \<Rightarrow> row \<Rightarrow> row \<Rightarrow> bool" where
  "converted cols r r' \<longleftrightarrow>
     (\<exists>f. r' = r\<lparr>Secs := f\<rparr>)
     \<and> (\<forall>col \<in> set cols. time_to_seconds (Text r col) = Inr (Secs r' col))
     \<and> (\<forall>col. col \<notin> set cols \<longrightarrow> Secs r' col = Secs r col)"

text \<open>\<open>ahead a b\<close>: the cell \<open>a\<close> is a number, and \<open>b\<close> is a larger number or NaN.\<close>

definition ahead :: "num \<Rightarrow> num \<Rightarrow> bool" where
  "ahead a b = (case a of None \<Rightarrow> False | Some v \<Rightarrow> (case b of None \<Rightarrow> True | Some w \<Rightarrow> v < w))"

text \<open>A row whose five cumulative times all have the given value, and a table of four such
  rows: two tied, one slower, one without a time.\<close>

definition with_cum :: "num \<Rightarrow> row" where
  "with_cum c = (csv_row None None None [])\<lparr>Cum := (\<lambda>_. c)\<rparr>"


definition four_rows :: dataframe where
  "four_rows = [with_cum (Some 100), with_cum (Some 100), with_cum (Some 150), with_cum None]"

text \<open>The table that \<open>process_data\<close> makes of the race of three.\<close>

definition race :: dataframe where
  "race = (case process_data (Table three_athletes) ''race.csv'' of
             Inr (Some df, _) \<Rightarrow> df | _ \<Rightarrow> [])"


section \<open>Properties\<close>

subsection \<open>Strings and conversions\<close>

lemma split_on_not_Nil: "split_on sep s \<noteq> []"
  by (induction s) auto

lemma py_int_total: "py_int p = Inl ValueError \<or> (\<exists>v. py_int p = Inr v)"
  by (auto simp: py_int_def Let_def split: if_splits)

lemma list_shapes:
  assumes "parts \<noteq> []"
  obtains (one) a where "parts = [a]"
        | (two) a b where "parts = [a, b]"
        | (three) a b d where "parts = [a, b, d]"
        | (more) a b d e rest where "parts = a # b # d # e # rest"
proof (cases parts)
  case Nil with assms show ?thesis by simp
next
  case c1: (Cons a r1)
  show ?thesis
  proof (cases r1)
    case Nil with c1 one show ?thesis by simp
  next
    case c2: (Cons b r2)
    show ?thesis
    proof (cases r2)
      case Nil with c1 c2 two show ?thesis by simp
    next
      case c3: (Cons d r3)
      show ?thesis
      proof (cases r3)
        case Nil with c1 c2 c3 three show ?thesis by simp
      next
        case (Cons e rest) with c1 c2 c3 more show ?thesis by simp
      qed
    qed
  qed
qed

subsection \<open>Durations\<close>

text \<open>
  Claim C1, as amended. \<open>time_to_seconds\<close> maps a string of three parts to
  hours * 3600 + minutes * 60 + seconds, one of two parts to minutes * 60 + seconds and one of
  a single part to its integer value, the parts being read by \<open>int\<close>; \<open>01:02:03\<close> gives 3723,
  \<open>02:03\<close> gives 123 and \<open>45\<close> gives 45; the literal \<open>00:00:00\<close> and a missing value (NaN)
  give NaN, not zero.
\<close>

theorem time_to_seconds_rule:
  "time_to_seconds NaN = Inr None
   \<and> time_to_seconds (Str ''00:00:00'') = Inr None
   \<and> time_to_seconds (Str ''01:02:03'') = Inr (Some 3723)
   \<and> time_to_seconds (Str ''02:03'') = Inr (Some 123)
   \<and> time_to_seconds (Str ''45'') = Inr (Some 45)
   \<and> (\<forall>s h m sec hv mv sv.
         s \<noteq> ''00:00:00'' \<and> split_on CHR '':'' s = [h, m, sec]
         \<and> py_int h = Inr hv \<and> py_int m = Inr mv \<and> py_int sec = Inr sv
         \<longrightarrow> time_to_seconds (Str s) = Inr (Some (hv * 3600 + mv * 60 + sv)))
   \<and> (\<forall>s m sec mv sv.
         split_on CHR '':'' s = [m, sec] \<and> py_int m = Inr mv \<and> py_int sec = Inr sv
         \<longrightarrow> time_to_seconds (Str s) = Inr (Some (mv * 60 + sv)))
   \<and> (\<forall>s sv.
         split_on CHR '':'' s = [s] \<and> py_int s = Inr sv
         \<longrightarrow> time_to_seconds (Str s) = Inr (Some sv))"
proof -
  have 1: "time_to_seconds (Str ''01:02:03'') = Inr (Some 3723)" by code_simp
  have 2: "time_to_seconds (Str ''02:03'') = Inr (Some 123)" by code_simp
  have 3: "time_to_seconds (Str ''45'') = Inr (Some 45)" by code_simp
  have 4: "time_to_seconds (Str s) = Inr (Some (hv * 3600 + mv * 60 + sv))"
    if "s \<noteq> ''00:00:00''" "split_on CHR '':'' s = [h, m, sec]"
       "py_int h = Inr hv" "py_int m = Inr mv" "py_int sec = Inr sv" for s h m sec hv mv sv
    using that by (simp add: time_to_seconds_def and_then_def)
  have 5: "time_to_seconds (Str s) = Inr (Some (mv * 60 + sv))"
    if "split_on CHR '':'' s = [m, sec]" "py_int m = Inr mv" "py_int sec = Inr sv" for s m sec mv sv
  proof -
    have "s \<noteq> ''00:00:00''" using that(1) by auto
    then show ?thesis using that by (simp add: time_to_seconds_def and_then_def)
  qed
  have 6: "time_to_seconds (Str s) = Inr (Some sv)"
    if "split_on CHR '':'' s = [s]" "py_int s = Inr sv" for s sv
  proof -
    have "s \<noteq> ''00:00:00''" using that(1) by auto
    then show ?thesis using that by (simp add: time_to_seconds_def and_then_def)
  qed
  have 7: "time_to_seconds NaN = Inr None" by (simp add: time_to_seconds_def)
  have 8: "time_to_seconds (Str ''00:00:00'') = Inr None" by (simp add: time_to_seconds_def)
  show ?thesis
  proof (intro conjI allI impI)
    fix s h m sec hv mv sv
    assume "s \<noteq> ''00:00:00'' \<and> split_on CHR '':'' s = [h, m, sec]
         \<and> py_int h = Inr hv \<and> py_int m = Inr mv \<and> py_int sec = Inr sv"
    then show "time_to_seconds (Str s) = Inr (Some (hv * 3600 + mv * 60 + sv))"
      by (elim conjE) (rule 4)
  next
    fix s m sec mv sv
    assume "split_on CHR '':'' s = [m, sec] \<and> py_int m = Inr mv \<and> py_int sec = Inr sv"
    then show "time_to_seconds (Str s) = Inr (Some (mv * 60 + sv))"
      by (elim conjE) (rule 5)
  next
    fix s sv
    assume "split_on CHR '':'' s = [s] \<and> py_int s = Inr sv"
    then show "time_to_seconds (Str s) = Inr (Some sv)"
      by (elim conjE) (rule 6)
  qed (rule 7 8 1 2 3)+
qed

theorem time_to_seconds_rule_witness:
  "''1:00:05'' \<noteq> ''00:00:00'' \<and> split_on CHR '':'' ''1:00:05'' = [''1'', ''00'', ''05'']
   \<and> py_int ''1'' = Inr 1 \<and> py_int ''00'' = Inr 0 \<and> py_int ''05'' = Inr 5
   \<and> time_to_seconds (Str ''1:00:05'') = Inr (Some (1 * 3600 + 0 * 60 + 5))
   \<and> split_on CHR '':'' ''10:30'' = [''10'', ''30'']
   \<and> py_int ''10'' = Inr 10 \<and> py_int ''30'' = Inr 30
   \<and> time_to_seconds (Str ''10:30'') = Inr (Some (10 * 60 + 30))
   \<and> split_on CHR '':'' ''90'' = [''90''] \<and> py_int ''90'' = Inr 90
   \<and> time_to_seconds (Str ''90'') = Inr (Some 90)"
proof -
  have a: "''1:00:05'' \<noteq> ''00:00:00''" by simp
  have b: "split_on CHR '':'' ''1:00:05'' = [''1'', ''00'', ''05'']" by code_simp
  have c1: "py_int ''1'' = Inr 1" by code_simp
  have c2: "py_int ''00'' = Inr 0" by code_simp
  have c3: "py_int ''05'' = Inr 5" by code_simp
  have d: "split_on CHR '':'' ''10:30'' = [''10'', ''30'']" by code_simp
  have e1: "py_int ''10'' = Inr 10" by code_simp
  have e2: "py_int ''30'' = Inr 30" by code_simp
  have f: "split_on CHR '':'' ''90'' = [''90'']" by code_simp
  have g: "py_int ''90'' = Inr 90" by code_simp
  from time_to_seconds_rule have r3:
    "\<forall>s h m sec hv mv sv.
         s \<noteq> ''00:00:00'' \<and> split_on CHR '':'' s = [h, m, sec]
         \<and> py_int h = Inr hv \<and> py_int m = Inr mv \<and> py_int sec = Inr sv
         \<longrightarrow> time_to_seconds (Str s) = Inr (Some (hv * 3600 + mv * 60 + sv))"
    by (elim conjE)
  from time_to_seconds_rule have r2:
    "\<forall>s m sec mv sv.
         split_on CHR '':'' s = [m, sec] \<and> py_int m = Inr mv \<and> py_int sec = Inr sv
         \<longrightarrow> time_to_seconds (Str s) = Inr (Some (mv * 60 + sv))"
    by (elim conjE)
  from time_to_seconds_rule have r1:
    "\<forall>s sv. split_on CHR '':'' s = [s] \<and> py_int s = Inr sv
         \<longrightarrow> time_to_seconds (Str s) = Inr (Some sv)"
    by (elim conjE)
  have three: "time_to_seconds (Str ''1:00:05'') = Inr (Some (1 * 3600 + 0 * 60 + 5))"
    by (rule r3[rule_format], intro conjI; (rule a b c1 c2 c3))
  have two: "time_to_seconds (Str ''10:30'') = Inr (Some (10 * 60 + 30))"
    by (rule r2[rule_format], intro conjI; (rule d e1 e2))
  have one: "time_to_seconds (Str ''90'') = Inr (Some 90)"
    by (rule r1[rule_format], intro conjI; (rule f g))
  show ?thesis by (intro conjI; (rule a b c1 c2 c3 d e1 e2 f g three two one))
qed

text \<open>The empty string is not a missing value: it has one part, the empty one, which \<open>int\<close>
  rejects, so the conversion raises ValueError and does not give NaN.\<close>

theorem time_to_seconds_empty_string:
  "time_to_seconds (Str '''') = Inl ValueError \<and> time_to_seconds (Str '''') \<noteq> Inr None"
  by (simp add: time_to_seconds_def and_then_def py_int_def strip_def int_literal_def)

text \<open>What \<open>int\<close> skips: a tabulator before the digits is white space, the separator 0x1C
  is not.\<close>

lemma py_int_white_space:
  "py_int [CHR 0x09, CHR ''7''] = Inr 7" "py_int [CHR 0x1C, CHR ''7''] = Inl ValueError"
  by code_simp+

text \<open>
  Claim C7, as amended. \<open>time_to_seconds\<close> raises in two cases and in no other. It raises
  AttributeError exactly when its argument is a number or a truth value, not a string and not
  NaN. It raises ValueError exactly when its argument is a string other than \<open>00:00:00\<close> and
  \<open>int\<close> rejects a part that is converted: any part of a string of three or of two parts, the
  first part otherwise. The number of parts alone never makes it raise.
\<close>

theorem time_to_seconds_raises_iff:
  "((\<exists>e. time_to_seconds c = Inl e) \<longleftrightarrow>
      ((\<exists>v. c = Num v) \<or> (\<exists>b. c = Bool b) \<or>
       (\<exists>s. c = Str s \<and> s \<noteq> ''00:00:00'' \<and>
           (let parts = split_on CHR '':'' s
            in if length parts = 3 \<or> length parts = 2
               then \<exists>p \<in> set parts. py_int p = Inl ValueError
               else py_int (hd parts) = Inl ValueError))))
   \<and> (time_to_seconds c = Inl AttributeError \<longleftrightarrow> (\<exists>v. c = Num v) \<or> (\<exists>b. c = Bool b))
   \<and> (\<forall>e. time_to_seconds c = Inl e \<longrightarrow> e = ValueError \<or> e = AttributeError)"
proof (cases c)
  case NaN
  then show ?thesis by (simp add: time_to_seconds_def)
next
  case (Num v)
  then show ?thesis by (simp add: time_to_seconds_def)
next
  case (Bool b)
  then show ?thesis by (simp add: time_to_seconds_def)
next
  case (Str s)
  show ?thesis
  proof (cases "s = ''00:00:00''")
    case True
    with Str show ?thesis by (simp add: time_to_seconds_def)
  next
    case False
    define parts where "parts = split_on CHR '':'' s"
    have ne: "parts \<noteq> []" by (simp add: parts_def split_on_not_Nil)
    have tot: "\<And>p. py_int p = Inl ValueError \<or> (\<exists>v. py_int p = Inr v)" by (rule py_int_total)
    have unf: "time_to_seconds c =
             (if length parts = 3 then
               and_then (py_int (parts ! 0)) (\<lambda>h.
               and_then (py_int (parts ! 1)) (\<lambda>m.
               and_then (py_int (parts ! 2)) (\<lambda>sec.
                 Inr (Some (h * 3600 + m * 60 + sec)))))
             else if length parts = 2 then
               and_then (py_int (parts ! 0)) (\<lambda>m.
               and_then (py_int (parts ! 1)) (\<lambda>sec.
                 Inr (Some (m * 60 + sec))))
             else
               and_then (py_int (parts ! 0)) (\<lambda>v. Inr (Some v)))"
      using Str False by (simp add: time_to_seconds_def parts_def Let_def)
    have goal: "((\<exists>e. time_to_seconds c = Inl e) \<longleftrightarrow>
           (if length parts = 3 \<or> length parts = 2
               then \<exists>p \<in> set parts. py_int p = Inl ValueError
               else py_int (hd parts) = Inl ValueError))
        \<and> (\<forall>e. time_to_seconds c = Inl e \<longrightarrow> e = ValueError)"
      using ne
    proof (cases parts rule: list_shapes)
      case (one a)
      then show ?thesis using tot[of a] unfolding unf by (auto simp: and_then_def)
    next
      case (two a b)
      then show ?thesis using tot[of a] tot[of b] unfolding unf by (auto simp: and_then_def)
    next
      case (three a b d)
      then show ?thesis using tot[of a] tot[of b] tot[of d] unfolding unf
        by (auto simp: and_then_def)
    next
      case (more a b d e rest)
      then show ?thesis using tot[of a] unfolding unf by (auto simp: and_then_def)
    qed
    from goal have only: "\<forall>e. time_to_seconds c = Inl e \<longrightarrow> e = ValueError" by (rule conjunct2)
    have no_attr: "time_to_seconds c \<noteq> Inl AttributeError"
    proof
      assume "time_to_seconds c = Inl AttributeError"
      with only have "AttributeError = ValueError" by blast
      then show False by simp
    qed
    show ?thesis using goal no_attr Str False by (simp add: parts_def Let_def)
  qed
qed

theorem time_to_seconds_raises_iff_witness:
  "(\<exists>s. Str ''12:xx'' = Str s \<and> s \<noteq> ''00:00:00'' \<and>
        (let parts = split_on CHR '':'' s
         in if length parts = 3 \<or> length parts = 2
            then \<exists>p \<in> set parts. py_int p = Inl ValueError
            else py_int (hd parts) = Inl ValueError))
   \<and> time_to_seconds (Str ''12:xx'') = Inl ValueError
   \<and> time_to_seconds (Num 45) = Inl AttributeError"
proof -
  let ?B = "\<exists>s. Str ''12:xx'' = Str s \<and> s \<noteq> ''00:00:00'' \<and>
        (let parts = split_on CHR '':'' s
         in if length parts = 3 \<or> length parts = 2
            then \<exists>p \<in> set parts. py_int p = Inl ValueError
            else py_int (hd parts) = Inl ValueError)"
  have sp: "split_on CHR '':'' ''12:xx'' = [''12'', ''xx'']" by code_simp
  have bad: "py_int ''xx'' = Inl ValueError" by code_simp
  have B: ?B
    by (rule exI[of _ "''12:xx''"]) (simp add: sp bad)
  note T = time_to_seconds_raises_iff[of "Str ''12:xx''"]
  from T have i: "(\<exists>e. time_to_seconds (Str ''12:xx'') = Inl e) \<longleftrightarrow>
      ((\<exists>v. Str ''12:xx'' = Num v) \<or> (\<exists>b. Str ''12:xx'' = Bool b) \<or> ?B)"
    by (rule conjunct1)
  from T have ii: "time_to_seconds (Str ''12:xx'') = Inl AttributeError
      \<longleftrightarrow> (\<exists>v. Str ''12:xx'' = Num v) \<or> (\<exists>b. Str ''12:xx'' = Bool b)"
    by (rule conjunct2[THEN conjunct1])
  from T have iii: "\<forall>e. time_to_seconds (Str ''12:xx'') = Inl e
      \<longrightarrow> e = ValueError \<or> e = AttributeError"
    by (rule conjunct2[THEN conjunct2])
  from i B obtain e where e: "time_to_seconds (Str ''12:xx'') = Inl e" by blast
  from ii have "time_to_seconds (Str ''12:xx'') \<noteq> Inl AttributeError" by simp
  with iii[rule_format, OF e] e have v: "time_to_seconds (Str ''12:xx'') = Inl ValueError"
    by auto
  note N = time_to_seconds_raises_iff[of "Num 45", THEN conjunct2, THEN conjunct1]
  have a: "time_to_seconds (Num 45) = Inl AttributeError"
    by (rule iffD2[OF N]) simp
  show ?thesis by (intro conjI; (rule B v a))
qed

text \<open>A string of four parts is accepted: the final branch converts its first part.\<close>

theorem time_to_seconds_four_parts:
  "length (split_on CHR '':'' ''1:2:3:4'') = 4 \<and> time_to_seconds (Str ''1:2:3:4'') = Inr (Some 1)"
  by code_simp

subsection \<open>Cumulative times\<close>

text \<open>The loop of \<open>process_data\<close> over the segments leaves, in every row, the running sums
  of the row's own durations.\<close>

lemma upt_1_5: "[1..<5] = [1, 2, 3, Suc 3]"
  by (simp add: upt_rec)

lemma all_segments_updated:
  "f(Swim := a, T1 := b, Bike := c, T2 := d, Run := e) = case_segment a b c d e"
  by (rule ext) (simp split: segment.splits)

lemma cumulative_times_rows:
  "cumulative_times df =
     map (\<lambda>r. r\<lparr>Cum := (\<lambda>seg. case seg of
              Swim \<Rightarrow> Secs r (Seg Swim)
            | T1 \<Rightarrow> num_add (Secs r (Seg Swim)) (Secs r (Seg T1))
            | Bike \<Rightarrow> num_add (num_add (Secs r (Seg Swim)) (Secs r (Seg T1))) (Secs r (Seg Bike))
            | T2 \<Rightarrow> num_add (num_add (num_add (Secs r (Seg Swim)) (Secs r (Seg T1)))
                                 (Secs r (Seg Bike))) (Secs r (Seg T2))
            | Run \<Rightarrow> num_add (num_add (num_add (num_add (Secs r (Seg Swim)) (Secs r (Seg T1)))
                                 (Secs r (Seg Bike))) (Secs r (Seg T2))) (Secs r (Seg Run)))\<rparr>) df"
  unfolding cumulative_times_def assign_Cum_def segments_def
  by (simp add: upt_1_5 o_def all_segments_updated)


lemma num_add_None [simp]: "num_add None b = None" "num_add a None = None"
  by (simp_all add: num_add_def split: option.splits)

lemma num_add_Some [simp]: "num_add (Some a) (Some b) = Some (a + b)"
  by (simp add: num_add_def)

lemma segments_nth:
  "segments ! 0 = Swim" "segments ! 1 = T1" "segments ! 2 = Bike" "segments ! 3 = T2"
  "segments ! 4 = Run" "length segments = 5" "segments ! Suc 0 = T1"
  by (simp_all add: segments_def)

lemma less_5_cases: "i < (5::nat) \<Longrightarrow> i = 0 \<or> i = 1 \<or> i = 2 \<or> i = 3 \<or> i = 4"
  by arith

text \<open>
  Claim C2. In the table of cumulative times the durations of a row are unchanged and the
  cumulative Swim time is the Swim duration. Every later cumulative time is NaN exactly when
  the one before it or the segment's duration is NaN. When both are present, and the durations
  of the row up to this segment are at most \<open>2 ^ 50\<close> seconds in absolute value, it is their
  sum, and both operands and the sum lie in \<open>exact_range\<close>: five times \<open>2 ^ 50\<close> is less than
  \<open>2 ^ 53\<close>, so no addition of the program up to this segment wraps or rounds. Hence a
  missing duration makes the cumulative time of its segment and of every later segment NaN,
  whatever the later durations are: nothing is filled with zero.
\<close>

theorem cumulative_times_absence:
  assumes "k < length df"
  shows "length (cumulative_times df) = length df
    \<and> Secs (cumulative_times df ! k) = Secs (df ! k)
    \<and> Cum (cumulative_times df ! k) Swim = Secs (df ! k) (Seg Swim)
    \<and> (\<forall>i. 1 \<le> i \<and> i < length segments \<longrightarrow>
          (Cum (cumulative_times df ! k) (segments ! i) = None \<longleftrightarrow>
             Cum (cumulative_times df ! k) (segments ! (i - 1)) = None
             \<or> Secs (df ! k) (Seg (segments ! i)) = None)
          \<and> (\<forall>a b. Cum (cumulative_times df ! k) (segments ! (i - 1)) = Some a
                  \<and> Secs (df ! k) (Seg (segments ! i)) = Some b
                  \<and> (\<forall>j \<le> i. \<forall>d. Secs (df ! k) (Seg (segments ! j)) = Some d
                         \<longrightarrow> - (2 ^ 50) \<le> d \<and> d \<le> 2 ^ 50) \<longrightarrow>
                Cum (cumulative_times df ! k) (segments ! i) = Some (a + b)
                \<and> exact_range a \<and> exact_range b \<and> exact_range (a + b)))
    \<and> (\<forall>i j. i \<le> j \<and> j < length segments \<and> Secs (df ! k) (Seg (segments ! i)) = None \<longrightarrow>
          Cum (cumulative_times df ! k) (segments ! j) = None)"
proof -
  let ?r = "cumulative_times df ! k"
  have len: "length (cumulative_times df) = length df" by (simp add: cumulative_times_rows)
  have secs: "Secs ?r = Secs (df ! k)" using assms by (simp add: cumulative_times_rows)
  have c: "Cum ?r = (\<lambda>seg. case seg of
              Swim \<Rightarrow> Secs (df ! k) (Seg Swim)
            | T1 \<Rightarrow> num_add (Secs (df ! k) (Seg Swim)) (Secs (df ! k) (Seg T1))
            | Bike \<Rightarrow> num_add (num_add (Secs (df ! k) (Seg Swim)) (Secs (df ! k) (Seg T1))) (Secs (df ! k) (Seg Bike))
            | T2 \<Rightarrow> num_add (num_add (num_add (Secs (df ! k) (Seg Swim)) (Secs (df ! k) (Seg T1)))
                                 (Secs (df ! k) (Seg Bike))) (Secs (df ! k) (Seg T2))
            | Run \<Rightarrow> num_add (num_add (num_add (num_add (Secs (df ! k) (Seg Swim)) (Secs (df ! k) (Seg T1)))
                                 (Secs (df ! k) (Seg Bike))) (Secs (df ! k) (Seg T2))) (Secs (df ! k) (Seg Run)))"
    using assms by (simp add: cumulative_times_rows)
  have swim: "Cum ?r Swim = Secs (df ! k) (Seg Swim)" by (simp add: c)
  have sum: "Cum ?r (segments ! i) =
            num_add (Cum ?r (segments ! (i - 1))) (Secs (df ! k) (Seg (segments ! i)))"
    if "1 \<le> i \<and> i < length segments" for i
  proof -
    from that have "i = 1 \<or> i = 2 \<or> i = 3 \<or> i = 4" by (auto simp: segments_nth dest: less_5_cases)
    then show ?thesis
      by (elim disjE) (simp_all add: c segments_nth)
  qed
  have iff: "Cum ?r (segments ! i) = None \<longleftrightarrow>
             Cum ?r (segments ! (i - 1)) = None \<or> Secs (df ! k) (Seg (segments ! i)) = None"
    if "1 \<le> i \<and> i < length segments" for i
    unfolding sum[OF that] by (auto simp: num_add_def split: option.splits)
  define M :: int where "M = 2 ^ 50"
  have prefix: "\<bar>a\<bar> \<le> (int i + 1) * M"
    if "i < length segments" and "Cum ?r (segments ! i) = Some a"
      and "\<And>j d. j \<le> i \<Longrightarrow> Secs (df ! k) (Seg (segments ! j)) = Some d \<Longrightarrow> \<bar>d\<bar> \<le> M"
    for i a
    using that
  proof (induction i arbitrary: a)
    case 0
    from 0(2) have "Secs (df ! k) (Seg (segments ! 0)) = Some a" by (simp add: c segments_nth)
    from 0(3)[OF le_refl this] show ?case by simp
  next
    case (Suc i)
    have i: "1 \<le> Suc i \<and> Suc i < length segments" using Suc.prems(1) by simp
    from Suc.prems(2) obtain a' b where a': "Cum ?r (segments ! i) = Some a'"
      and b: "Secs (df ! k) (Seg (segments ! Suc i)) = Some b" and a: "a = a' + b"
      unfolding sum[OF i] by (auto simp: num_add_def split: option.splits)
    have lt: "i < length segments" using Suc.prems(1) by simp
    have "\<bar>a'\<bar> \<le> (int i + 1) * M"
    proof (rule Suc.IH[OF lt a'])
      fix j d assume "j \<le> i" and s: "Secs (df ! k) (Seg (segments ! j)) = Some d"
      then have "j \<le> Suc i" by simp
      then show "\<bar>d\<bar> \<le> M" using s by (rule Suc.prems(3))
    qed
    moreover have "\<bar>b\<bar> \<le> M" using Suc.prems(3)[OF le_refl b] .
    ultimately show ?case unfolding a by (simp add: algebra_simps)
  qed
  have bounded: "Cum ?r (segments ! i) = Some (a + b)
                \<and> exact_range a \<and> exact_range b \<and> exact_range (a + b)"
    if i: "1 \<le> i \<and> i < length segments"
      and ab: "Cum ?r (segments ! (i - 1)) = Some a
                  \<and> Secs (df ! k) (Seg (segments ! i)) = Some b
                  \<and> (\<forall>j \<le> i. \<forall>d. Secs (df ! k) (Seg (segments ! j)) = Some d
                         \<longrightarrow> - (2 ^ 50) \<le> d \<and> d \<le> 2 ^ 50)" for i a b
  proof -
    from ab have a: "Cum ?r (segments ! (i - 1)) = Some a"
      and b: "Secs (df ! k) (Seg (segments ! i)) = Some b" by simp_all
    from ab have B: "\<bar>d\<bar> \<le> M" if "j \<le> i" "Secs (df ! k) (Seg (segments ! j)) = Some d" for j d
      using that unfolding M_def by (auto simp: abs_le_iff)
    have eq: "Cum ?r (segments ! i) = Some (a + b)"
      unfolding sum[OF i] using a b by simp
    have lt: "i - 1 < length segments" using i by arith
    have "\<bar>a\<bar> \<le> (int (i - 1) + 1) * M"
    proof (rule prefix[OF lt a])
      fix j d assume "j \<le> i - 1" and s: "Secs (df ! k) (Seg (segments ! j)) = Some d"
      then have "j \<le> i" by simp
      then show "\<bar>d\<bar> \<le> M" using s by (rule B)
    qed
    then have pa: "\<bar>a\<bar> \<le> int i * M" using i by (simp add: of_nat_diff)
    have M0: "0 \<le> M" by (simp add: M_def)
    from i have "int i \<le> 4" by (simp add: segments_nth)
    then have "int i * M \<le> 4 * M" using M0 by (rule mult_right_mono)
    with pa have ra: "\<bar>a\<bar> \<le> 4 * M" by linarith
    have rb: "\<bar>b\<bar> \<le> M" using B[OF le_refl b] .
    have pow: "(2::int) ^ 53 = 8 * M" by (simp add: M_def)
    have "exact_range a" "exact_range b" "exact_range (a + b)"
      unfolding exact_range_def pow using ra rb M0 by linarith+
    with eq show ?thesis by simp
  qed
  have absent: "Cum ?r (segments ! j) = None"
    if "i \<le> j \<and> j < length segments \<and> Secs (df ! k) (Seg (segments ! i)) = None" for i j
  proof -
    from that have j: "j = 0 \<or> j = 1 \<or> j = 2 \<or> j = 3 \<or> j = 4"
      by (auto simp: segments_nth dest: less_5_cases)
    from that have "i < 5" by (simp add: segments_nth)
    then have i: "i = 0 \<or> i = 1 \<or> i = 2 \<or> i = 3 \<or> i = 4" by (rule less_5_cases)
    from that have le: "i \<le> j" and n: "Secs (df ! k) (Seg (segments ! i)) = None" by simp_all
    show ?thesis using i j le n
      by (elim disjE) (simp_all add: c segments_nth)
  qed
  show ?thesis
  proof (intro conjI allI impI)
    show "length (cumulative_times df) = length df" by (rule len)
    show "Secs ?r = Secs (df ! k)" by (rule secs)
    show "Cum ?r Swim = Secs (df ! k) (Seg Swim)" by (rule swim)
  next
    fix i assume i: "1 \<le> i \<and> i < length segments"
    show "Cum ?r (segments ! i) = None \<longleftrightarrow>
             Cum ?r (segments ! (i - 1)) = None \<or> Secs (df ! k) (Seg (segments ! i)) = None"
      by (rule iff[OF i])
  next
    fix i a b assume i: "1 \<le> i \<and> i < length segments"
      and ab: "Cum ?r (segments ! (i - 1)) = Some a
                  \<and> Secs (df ! k) (Seg (segments ! i)) = Some b
                  \<and> (\<forall>j \<le> i. \<forall>d. Secs (df ! k) (Seg (segments ! j)) = Some d
                         \<longrightarrow> - (2 ^ 50) \<le> d \<and> d \<le> 2 ^ 50)"
    note R = bounded[OF i ab]
    show "Cum ?r (segments ! i) = Some (a + b)" by (rule R[THEN conjunct1])
    show "exact_range a" by (rule R[THEN conjunct2, THEN conjunct1])
    show "exact_range b" by (rule R[THEN conjunct2, THEN conjunct2, THEN conjunct1])
    show "exact_range (a + b)" by (rule R[THEN conjunct2, THEN conjunct2, THEN conjunct2])
  next
    fix i j assume "i \<le> j \<and> j < length segments \<and> Secs (df ! k) (Seg (segments ! i)) = None"
    then show "Cum ?r (segments ! j) = None" by (rule absent)
  qed
qed

theorem cumulative_times_absence_witness:
  "\<exists>d. convert_columns time_columns three_athletes = Inr d
     \<and> 2 < length d
     \<and> (1::nat) \<le> 1 \<and> 1 < length segments
     \<and> Cum (cumulative_times d ! 2) (segments ! (1 - 1)) = Some 630
     \<and> Secs (d ! 2) (Seg (segments ! 1)) = Some 65
     \<and> Secs (d ! 2) (Seg (segments ! 0)) = Some 630
     \<and> Cum (cumulative_times d ! 2) (segments ! 1) = Some (630 + 65)
     \<and> exact_range 630 \<and> exact_range 65 \<and> exact_range (630 + 65)
     \<and> (2::nat) \<le> 4 \<and> 4 < length segments \<and> Secs (d ! 2) (Seg (segments ! 2)) = None
     \<and> Cum (cumulative_times d ! 2) (segments ! 4) = None"
proof -
  have "case convert_columns time_columns three_athletes of
          Inr d \<Rightarrow> length d = 3 \<and> Secs (d ! 2) (Seg Swim) = Some 630
                   \<and> Secs (d ! 2) (Seg T1) = Some 65 \<and> Secs (d ! 2) (Seg Bike) = None
        | Inl e \<Rightarrow> False"
    by code_simp
  then obtain d where d: "convert_columns time_columns three_athletes = Inr d"
    and len: "length d = 3" and swim: "Secs (d ! 2) (Seg Swim) = Some 630"
    and t1: "Secs (d ! 2) (Seg T1) = Some 65" and bike: "Secs (d ! 2) (Seg Bike) = None"
    by (auto split: sum.splits)
  have k: "2 < length d" using len by simp
  note T = cumulative_times_absence[OF k]
  note s0 = T[THEN conjunct2, THEN conjunct2, THEN conjunct1]
  note step = T[THEN conjunct2, THEN conjunct2, THEN conjunct2, THEN conjunct1]
  note absent = T[THEN conjunct2, THEN conjunct2, THEN conjunct2, THEN conjunct2]
  have h1: "(1::nat) \<le> 1 \<and> 1 < length segments" by (simp add: segments_def)
  have p0: "Cum (cumulative_times d ! 2) (segments ! (1 - 1)) = Some 630"
    using s0 swim by (simp add: segments_def)
  have p1: "Secs (d ! 2) (Seg (segments ! 1)) = Some 65" using t1 by (simp add: segments_def)
  have q0: "Secs (d ! 2) (Seg (segments ! 0)) = Some 630" using swim by (simp add: segments_def)
  have small: "\<forall>j \<le> 1. \<forall>v. Secs (d ! 2) (Seg (segments ! j)) = Some v
                         \<longrightarrow> - (2 ^ 50) \<le> v \<and> v \<le> 2 ^ 50"
  proof (intro allI impI)
    fix j :: nat and v assume j: "j \<le> 1" and v: "Secs (d ! 2) (Seg (segments ! j)) = Some v"
    from j have "j = 0 \<or> j = 1" by arith
    then show "- (2 ^ 50) \<le> v \<and> v \<le> 2 ^ 50"
      using v q0 p1 by (elim disjE) simp_all
  qed
  note c1 = step[rule_format, OF h1, THEN conjunct2, rule_format, OF conjI[OF p0 conjI[OF p1 small]]]
  have b2: "Secs (d ! 2) (Seg (segments ! 2)) = None" using bike by (simp add: segments_def)
  have h2: "(2::nat) \<le> 4 \<and> 4 < length segments \<and> Secs (d ! 2) (Seg (segments ! 2)) = None"
    using b2 by (simp add: segments_def)
  have c4: "Cum (cumulative_times d ! 2) (segments ! 4) = None"
    by (rule absent[rule_format, OF h2])
  have "convert_columns time_columns three_athletes = Inr d
     \<and> 2 < length d
     \<and> (1::nat) \<le> 1 \<and> 1 < length segments
     \<and> Cum (cumulative_times d ! 2) (segments ! (1 - 1)) = Some 630
     \<and> Secs (d ! 2) (Seg (segments ! 1)) = Some 65
     \<and> Secs (d ! 2) (Seg (segments ! 0)) = Some 630
     \<and> Cum (cumulative_times d ! 2) (segments ! 1) = Some (630 + 65)
     \<and> exact_range 630 \<and> exact_range 65 \<and> exact_range (630 + 65)
     \<and> (2::nat) \<le> 4 \<and> 4 < length segments \<and> Secs (d ! 2) (Seg (segments ! 2)) = None
     \<and> Cum (cumulative_times d ! 2) (segments ! 4) = None"
    by (intro conjI; (rule d k p0 p1 q0 c1[THEN conjunct1] c1[THEN conjunct2, THEN conjunct1]
          c1[THEN conjunct2, THEN conjunct2, THEN conjunct1]
          c1[THEN conjunct2, THEN conjunct2, THEN conjunct2]
          c4 b2 h1[THEN conjunct1] h1[THEN conjunct2] h2[THEN conjunct1]
          h2[THEN conjunct2, THEN conjunct1]))
  then show ?thesis by (rule exI)
qed


subsection \<open>The table that \<open>process_data\<close> returns\<close>

lemma and_then_Inr: "and_then r f = Inr v \<longleftrightarrow> (\<exists>u. r = Inr u \<and> f u = Inr v)"
  by (cases r) (simp_all add: and_then_def)

lemma apply_time_to_seconds_rows:
  "apply_time_to_seconds col df = Inr df' \<Longrightarrow>
     list_all2 (\<lambda>r r'. \<exists>v. r' = r\<lparr>Secs := (Secs r)(col := v)\<rparr>
                             \<and> time_to_seconds (Text r col) = Inr v) df df'"
proof (induction df arbitrary: df')
  case Nil
  then show ?case by simp
next
  case (Cons r rs)
  from Cons.prems obtain v rs' where v: "time_to_seconds (Text r col) = Inr v"
    and rs': "apply_time_to_seconds col rs = Inr rs'"
    and df': "df' = r\<lparr>Secs := (Secs r)(col := v)\<rparr> # rs'"
    by (auto simp: and_then_Inr)
  from Cons.IH[OF rs'] v df' show ?case by (simp add: fun_upd_def)
qed

lemma convert_columns_rows:
  "convert_columns cols df = Inr df' \<Longrightarrow> list_all2 (converted cols) df df'"
proof (induction cols arbitrary: df)
  case Nil
  then show ?case
  proof -
    have "converted [] r r" for r
      unfolding converted_def by (auto intro: exI[of _ "Secs r"])
    with Nil show ?thesis by (simp add: list_all2_conv_all_nth)
  qed
next
  case (Cons col cols)
  from Cons.prems obtain d where d: "apply_time_to_seconds col df = Inr d"
    and rest: "convert_columns cols d = Inr df'"
    by (auto simp: and_then_Inr)
  note a = apply_time_to_seconds_rows[OF d] and b = Cons.IH[OF rest]
  have len: "length df = length d" "length d = length df'"
    using a b by (auto dest: list_all2_lengthD)
  show ?case unfolding list_all2_conv_all_nth
  proof (intro conjI allI impI)
    show "length df = length df'" using len by simp
  next
    fix i assume i: "i < length df"
    let ?r = "df ! i" and ?m = "d ! i" and ?r' = "df' ! i"
    from a i obtain v where v: "?m = ?r\<lparr>Secs := (Secs ?r)(col := v)\<rparr>"
      "time_to_seconds (Text ?r col) = Inr v"
      by (auto simp: list_all2_conv_all_nth)
    have m: "?m = ?r\<lparr>Secs := (Secs ?r)(col := Secs ?m col)\<rparr>"
      "time_to_seconds (Text ?r col) = Inr (Secs ?m col)"
      using v by (subst v(1), simp)+
    from b i len have c: "converted cols ?m ?r'" by (auto simp: list_all2_conv_all_nth)
    then obtain f where f: "?r' = ?m\<lparr>Secs := f\<rparr>" by (auto simp: converted_def)
    have same_text: "Text ?m = Text ?r" by (subst m(1)) simp
    have 1: "\<exists>g. ?r' = ?r\<lparr>Secs := g\<rparr>"
      by (rule exI[of _ f]) (subst f, subst m(1), simp)
    have 2: "time_to_seconds (Text ?r c) = Inr (Secs ?r' c)" if "c \<in> set (col # cols)" for c
    proof (cases "c \<in> set cols")
      case True
      with c same_text show ?thesis by (auto simp: converted_def)
    next
      case False
      with that have "c = col" by simp
      moreover from c False have "Secs ?r' c = Secs ?m c" by (auto simp: converted_def)
      ultimately show ?thesis using m(2) by simp
    qed
    have 3: "Secs ?r' c = Secs ?r c" if "c \<notin> set (col # cols)" for c
    proof -
      from that c have "Secs ?r' c = Secs ?m c" by (auto simp: converted_def)
      also have "\<dots> = Secs ?r c" using that by (subst m(1)) simp
      finally show ?thesis .
    qed
    show "converted (col # cols) ?r ?r'"
      unfolding converted_def using 1 2 3 by blast
  qed
qed


lemma process_data_table:
  assumes "process_data contents filename = Inr (Some df, msg)"
  shows "\<exists>t d. contents = Table t \<and> convert_columns time_columns t = Inr d
               \<and> df = cumulative_times d \<and> msg = None"
  using assms
  by (cases contents) (auto simp: process_data_def and_then_Inr split: if_splits)

lemma process_data_rows:
  assumes "process_data contents filename = Inr (Some df, msg)" and "r \<in> set df"
  shows "\<forall>col \<in> set time_columns. time_to_seconds (Text r col) = Inr (Secs r col)"
    and "Cum r = (\<lambda>seg. case seg of
              Swim \<Rightarrow> Secs r (Seg Swim)
            | T1 \<Rightarrow> num_add (Secs r (Seg Swim)) (Secs r (Seg T1))
            | Bike \<Rightarrow> num_add (num_add (Secs r (Seg Swim)) (Secs r (Seg T1))) (Secs r (Seg Bike))
            | T2 \<Rightarrow> num_add (num_add (num_add (Secs r (Seg Swim)) (Secs r (Seg T1)))
                                 (Secs r (Seg Bike))) (Secs r (Seg T2))
            | Run \<Rightarrow> num_add (num_add (num_add (num_add (Secs r (Seg Swim)) (Secs r (Seg T1)))
                                 (Secs r (Seg Bike))) (Secs r (Seg T2))) (Secs r (Seg Run)))"
proof -
  from process_data_table[OF assms(1)] obtain t d
    where d: "convert_columns time_columns t = Inr d" and df: "df = cumulative_times d"
    by blast
  from assms(2) df obtain m where m: "m \<in> set d"
    and r: "r = m\<lparr>Cum := (\<lambda>seg. case seg of
              Swim \<Rightarrow> Secs m (Seg Swim)
            | T1 \<Rightarrow> num_add (Secs m (Seg Swim)) (Secs m (Seg T1))
            | Bike \<Rightarrow> num_add (num_add (Secs m (Seg Swim)) (Secs m (Seg T1))) (Secs m (Seg Bike))
            | T2 \<Rightarrow> num_add (num_add (num_add (Secs m (Seg Swim)) (Secs m (Seg T1)))
                                 (Secs m (Seg Bike))) (Secs m (Seg T2))
            | Run \<Rightarrow> num_add (num_add (num_add (num_add (Secs m (Seg Swim)) (Secs m (Seg T1)))
                                 (Secs m (Seg Bike))) (Secs m (Seg T2))) (Secs m (Seg Run)))\<rparr>"
    unfolding cumulative_times_rows by auto
  from m obtain i where i: "i < length d" "m = d ! i" by (auto simp: in_set_conv_nth)
  with convert_columns_rows[OF d] have c: "converted time_columns (t ! i) m"
    by (auto simp: list_all2_conv_all_nth)
  then obtain f where f: "m = (t ! i)\<lparr>Secs := f\<rparr>" by (auto simp: converted_def)
  have tm: "Text m = Text (t ! i)" by (subst f) simp
  have tr: "Text r = Text m" "Secs r = Secs m" by (subst r, simp)+
  show "\<forall>col \<in> set time_columns. time_to_seconds (Text r col) = Inr (Secs r col)"
    using c tm tr by (simp add: converted_def)
  show "Cum r = (\<lambda>seg. case seg of
              Swim \<Rightarrow> Secs r (Seg Swim)
            | T1 \<Rightarrow> num_add (Secs r (Seg Swim)) (Secs r (Seg T1))
            | Bike \<Rightarrow> num_add (num_add (Secs r (Seg Swim)) (Secs r (Seg T1))) (Secs r (Seg Bike))
            | T2 \<Rightarrow> num_add (num_add (num_add (Secs r (Seg Swim)) (Secs r (Seg T1)))
                                 (Secs r (Seg Bike))) (Secs r (Seg T2))
            | Run \<Rightarrow> num_add (num_add (num_add (num_add (Secs r (Seg Swim)) (Secs r (Seg T1)))
                                 (Secs r (Seg Bike))) (Secs r (Seg T2))) (Secs r (Seg Run)))"
    unfolding tr(2) by (subst r) simp
qed

text \<open>
  Claim C6. In the table that \<open>process_data\<close> returns, the five durations of a row are the
  values parsed from its text cells; when all five are present, not negative and at most
  \<open>2 ^ 50\<close> seconds each, the five cumulative times are present, lie in \<open>exact_range\<close> (five
  times \<open>2 ^ 50\<close> is less than \<open>2 ^ 53\<close>, so no addition of the program wraps or rounds) and do
  not decrease along Swim, T1, Bike, T2, Run.
\<close>

theorem cumulative_monotone:
  assumes "process_data contents filename = Inr (Some df, msg)"
    and "r \<in> set df"
    and "\<forall>seg. \<exists>d. Secs r (Seg seg) = Some d \<and> 0 \<le> d \<and> d \<le> 2 ^ 50"
  shows "(\<forall>seg. time_to_seconds (Text r (Seg seg)) = Inr (Secs r (Seg seg)))
    \<and> (\<exists>c. (\<forall>seg. Cum r seg = Some (c seg) \<and> exact_range (c seg))
            \<and> c Swim \<le> c T1 \<and> c T1 \<le> c Bike \<and> c Bike \<le> c T2 \<and> c T2 \<le> c Run)"
proof -
  note rows = process_data_rows[OF assms(1,2)]
  have parsed: "time_to_seconds (Text r (Seg seg)) = Inr (Secs r (Seg seg))" for seg
    using rows(1) by (cases seg) (simp_all add: time_columns_def)
  from assms(3) obtain d where d: "\<And>seg. Secs r (Seg seg) = Some (d seg)"
    "\<And>seg. 0 \<le> d seg" "\<And>seg. d seg \<le> 2 ^ 50"
    by metis
  define c where "c = (\<lambda>seg. case seg of Swim \<Rightarrow> d Swim | T1 \<Rightarrow> d Swim + d T1
     | Bike \<Rightarrow> d Swim + d T1 + d Bike | T2 \<Rightarrow> d Swim + d T1 + d Bike + d T2
     | Run \<Rightarrow> d Swim + d T1 + d Bike + d T2 + d Run)"
  have cum: "Cum r seg = Some (c seg)" for seg
    by (subst rows(2)) (simp add: c_def d(1) split: segment.splits)
  have pow: "(2::int) ^ 53 = 8 * 2 ^ 50" by simp
  have lo: "0 \<le> c seg" for seg
    using d(2)[of Swim] d(2)[of T1] d(2)[of Bike] d(2)[of T2] d(2)[of Run]
    by (cases seg) (simp_all add: c_def)
  have hi: "c seg \<le> 5 * 2 ^ 50" for seg
    using d(2)[of Swim] d(2)[of T1] d(2)[of Bike] d(2)[of T2] d(2)[of Run]
          d(3)[of Swim] d(3)[of T1] d(3)[of Bike] d(3)[of T2] d(3)[of Run]
    by (cases seg) (simp_all add: c_def)
  have range: "exact_range (c seg)" for seg
    unfolding exact_range_def pow using lo[of seg] hi[of seg] by linarith
  have mono: "c Swim \<le> c T1 \<and> c T1 \<le> c Bike \<and> c Bike \<le> c T2 \<and> c T2 \<le> c Run"
    using d(2)[of T1] d(2)[of Bike] d(2)[of T2] d(2)[of Run] by (simp add: c_def)
  have "(\<forall>seg. Cum r seg = Some (c seg) \<and> exact_range (c seg))
            \<and> c Swim \<le> c T1 \<and> c T1 \<le> c Bike \<and> c Bike \<le> c T2 \<and> c T2 \<le> c Run"
    using cum range mono by blast
  then show ?thesis using parsed by blast
qed

theorem cumulative_monotone_witness:
  "\<exists>df msg r c. process_data (Table three_athletes) ''race.csv'' = Inr (Some df, msg)
     \<and> r \<in> set df
     \<and> (\<forall>seg. \<exists>d. Secs r (Seg seg) = Some d \<and> 0 \<le> d \<and> d \<le> 2 ^ 50)
     \<and> (\<forall>seg. Cum r seg = Some (c seg) \<and> exact_range (c seg))
     \<and> c Swim \<le> c T1 \<and> c T1 \<le> c Bike \<and> c Bike \<le> c T2 \<and> c T2 \<le> c Run"
proof -
  have "case process_data (Table three_athletes) ''race.csv'' of
          Inr (Some df, msg) \<Rightarrow> df \<noteq> [] \<and>
            (\<forall>seg \<in> set segments. case Secs (hd df) (Seg seg) of
                 Some d \<Rightarrow> 0 \<le> d \<and> d \<le> 10000 | None \<Rightarrow> False)
        | _ \<Rightarrow> False"
    by code_simp
  then obtain df msg where p: "process_data (Table three_athletes) ''race.csv'' = Inr (Some df, msg)"
    and ne: "df \<noteq> []"
    and s: "\<forall>seg \<in> set segments. case Secs (hd df) (Seg seg) of
                 Some d \<Rightarrow> 0 \<le> d \<and> d \<le> 10000 | None \<Rightarrow> False"
    by (auto split: sum.splits option.splits prod.splits)
  have r: "hd df \<in> set df" using ne by simp
  have all: "seg \<in> set segments" for seg by (cases seg) (simp_all add: segments_def)
  have small: "(10000::int) \<le> 2 ^ 50" by simp
  have h: "\<forall>seg. \<exists>d. Secs (hd df) (Seg seg) = Some d \<and> 0 \<le> d \<and> d \<le> 2 ^ 50"
  proof
    fix seg
    from s all[of seg] obtain d where "Secs (hd df) (Seg seg) = Some d" "0 \<le> d" "d \<le> 10000"
      by (auto split: option.splits)
    with small show "\<exists>d. Secs (hd df) (Seg seg) = Some d \<and> 0 \<le> d \<and> d \<le> 2 ^ 50"
      by (intro exI[of _ d]) linarith
  qed
  from cumulative_monotone[OF p r h] obtain c where
    "(\<forall>seg. Cum (hd df) seg = Some (c seg) \<and> exact_range (c seg))
      \<and> c Swim \<le> c T1 \<and> c T1 \<le> c Bike \<and> c Bike \<le> c T2 \<and> c T2 \<le> c Run"
    by blast
  with p r h show ?thesis by blast
qed


subsection \<open>Ranks\<close>

text \<open>The place of the first member of a cell's group in the ordered column is the number
  of cells strictly before it.\<close>

lemma takeWhile_neq_sorted:
  fixes x :: "'a::linorder"
  shows "sorted xs \<Longrightarrow> x \<in> set xs \<Longrightarrow> takeWhile (\<lambda>k. k \<noteq> x) xs = filter (\<lambda>k. k < x) xs"
proof (induction xs)
  case Nil
  then show ?case by simp
next
  case (Cons a xs)
  show ?case
  proof (cases "a = x")
    case True
    with Cons.prems have "\<forall>k \<in> set xs. \<not> k < x" by auto
    then have "filter (\<lambda>k. k < x) xs = []" by (simp add: filter_empty_conv)
    with True show ?thesis by simp
  next
    case False
    with Cons.prems have "x \<in> set xs" "a < x" "sorted xs" by auto
    with Cons.IH False show ?thesis by simp
  qed
qed

lemma nan_last_less:
  "nan_last a < nan_last b \<longleftrightarrow>
     (case a of None \<Rightarrow> False | Some v \<Rightarrow> (case b of None \<Rightarrow> True | Some w \<Rightarrow> v < w))"
  by (simp add: nan_last_def split: option.splits)

lemma rank_min_bottom_nth:
  assumes "k < length col"
  shows "rank_min_bottom col ! k =
           Some (1 + int (length (filter (\<lambda>w. nan_last w < nan_last (col ! k)) col)))"
proof -
  let ?keys = "map nan_last col"
  have mem: "nan_last (col ! k) \<in> set (sort ?keys)" using assms by simp
  have "takeWhile (\<lambda>x. x \<noteq> nan_last (col ! k)) (sort ?keys)
          = filter (\<lambda>x. x < nan_last (col ! k)) (sort ?keys)"
    by (rule takeWhile_neq_sorted[OF sorted_sort mem])
  also have "\<dots> = sort (filter (\<lambda>x. x < nan_last (col ! k)) ?keys)"
    by (simp add: filter_sort)
  finally have "length (takeWhile (\<lambda>x. x \<noteq> nan_last (col ! k)) (sort ?keys))
          = length (filter (\<lambda>w. nan_last w < nan_last (col ! k)) col)"
    by (simp add: filter_map o_def)
  then show ?thesis using assms by (simp add: rank_min_bottom_def Let_def)
qed

lemma length_rank_min_bottom [simp]: "length (rank_min_bottom col) = length col"
  by (simp add: rank_min_bottom_def Let_def)

lemma rank_steps:
  fixes step :: "segment \<Rightarrow> dataframe \<Rightarrow> dataframe"
  assumes step: "\<And>seg d. length (step seg d) = length d"
    "\<And>seg d k. k < length d \<Longrightarrow> step seg d ! k =
        (d ! k)\<lparr>Cum_Rank := (Cum_Rank (d ! k))(seg := rank_min_bottom (map (\<lambda>r. Cum r seg) d) ! k)\<rparr>"
  shows "length (fold step segs df) = length df
   \<and> (\<forall>k < length df.
        fold step segs df ! k
        = (df ! k)\<lparr>Cum_Rank := (\<lambda>seg. if seg \<in> set segs
                                      then rank_min_bottom (map (\<lambda>r. Cum r seg) df) ! k
                                      else Cum_Rank (df ! k) seg)\<rparr>)"
proof (induction segs arbitrary: df)
  case Nil
  then show ?case by simp
next
  case (Cons s segs)
  let ?d1 = "step s df"
  have len1: "length ?d1 = length df" by (rule step(1))
  have col1: "map (\<lambda>r. Cum r seg) ?d1 = map (\<lambda>r. Cum r seg) df" for seg
    by (rule nth_equalityI) (simp_all add: step)
  note IH = Cons.IH[of ?d1]
  have a: "length (fold step (s # segs) df) = length df"
    using IH len1 by simp
  have b: "fold step (s # segs) df ! k
        = (df ! k)\<lparr>Cum_Rank := (\<lambda>seg. if seg \<in> set (s # segs)
                                      then rank_min_bottom (map (\<lambda>r. Cum r seg) df) ! k
                                      else Cum_Rank (df ! k) seg)\<rparr>" if k: "k < length df" for k
  proof -
    from k have "k < length ?d1" by (simp add: len1)
    with IH have "fold step segs ?d1 ! k
        = (?d1 ! k)\<lparr>Cum_Rank := (\<lambda>seg. if seg \<in> set segs
                                      then rank_min_bottom (map (\<lambda>r. Cum r seg) ?d1) ! k
                                      else Cum_Rank (?d1 ! k) seg)\<rparr>" by blast
    then show ?thesis
      unfolding col1 by (simp add: step(2)[OF k] fun_eq_iff)
  qed
  show ?case using a b by blast
qed

lemma add_ranks_rows:
  "length (add_ranks df) = length df"
  "k < length df \<Longrightarrow>
     add_ranks df ! k = (df ! k)\<lparr>Cum_Rank := (\<lambda>seg. rank_min_bottom (map (\<lambda>r. Cum r seg) df) ! k)\<rparr>"
proof -
  have all: "seg \<in> set segments" for seg by (cases seg) (simp_all add: segments_def)
  define step :: "segment \<Rightarrow> dataframe \<Rightarrow> dataframe" where "step = (\<lambda>seg d. map2 (\<lambda>r k. r\<lparr>Cum_Rank := (Cum_Rank r)(seg := k)\<rparr>) d
                      (rank_min_bottom (map (\<lambda>r. Cum r seg) d)))"
  have 1: "length (step seg d) = length d" for seg d by (simp add: step_def)
  have 2: "step seg d ! k =
        (d ! k)\<lparr>Cum_Rank := (Cum_Rank (d ! k))(seg := rank_min_bottom (map (\<lambda>r. Cum r seg) d) ! k)\<rparr>"
    if "k < length d" for seg d k using that by (simp add: step_def)
  have f: "add_ranks df = fold step segments df" by (simp add: add_ranks_def step_def)
  note R = rank_steps[of step segments df, OF 1 2]
  show "length (add_ranks df) = length df" unfolding f using R by blast
  show "add_ranks df ! k = (df ! k)\<lparr>Cum_Rank := (\<lambda>seg. rank_min_bottom (map (\<lambda>r. Cum r seg) df) ! k)\<rparr>"
    if "k < length df"
    unfolding f using R that by (simp add: all)
qed


lemma nan_last_ahead: "nan_last a < nan_last b \<longleftrightarrow> ahead a b"
  by (simp add: nan_last_less ahead_def)

lemma ahead_trans: "ahead a b \<Longrightarrow> ahead b c \<Longrightarrow> ahead a c"
  by (auto simp: ahead_def split: option.splits)

lemma ahead_irrefl: "\<not> ahead a a"
  by (auto simp: ahead_def split: option.splits)

lemma length_filter_strict:
  assumes "\<And>x. x \<in> set xs \<Longrightarrow> P x \<Longrightarrow> Q x" and "y \<in> set xs" and "Q y" and "\<not> P y"
  shows "length (filter P xs) < length (filter Q xs)"
  using assms
proof (induction xs)
  case Nil
  then show ?case by simp
next
  case (Cons a xs)
  have le: "length (filter P xs) \<le> length (filter Q xs)"
  proof -
    have "filter P xs = filter P (filter Q xs)"
      using Cons.prems(1) by (auto simp: filter_filter intro!: filter_cong)
    then show ?thesis by (metis length_filter_le)
  qed
  show ?case
  proof (cases "a = y")
    case True
    with Cons.prems le show ?thesis by simp
  next
    case False
    with Cons.prems have "y \<in> set xs" by simp
    with Cons.IH Cons.prems have "length (filter P xs) < length (filter Q xs)" by simp
    with Cons.prems(1)[of a] show ?thesis by auto
  qed
qed

text \<open>
  Claim C3, as amended. In position mode each of the five cumulative columns is ranked on its
  own, and the cumulative columns are left as they are. The rank of an athlete in a column is
  one plus the number of athletes ahead of them there, a missing time being behind every time
  that is present: tied athletes share the lowest rank of their group, an athlete ahead of
  another has a strictly smaller rank, so an athlete without a time ranks strictly worse than
  every athlete with one, and times 100 and 150 get ranks 1 and 2. The rank after a group of
  tied athletes is not the next consecutive one: it skips as many ranks as the ties took.
\<close>

theorem min_rank:
  assumes "k < length df"
  shows "Cum_Rank (add_ranks df ! k) seg =
           Some (1 + int (length (filter (\<lambda>r. ahead (Cum r seg) (Cum (df ! k) seg)) df)))
    \<and> Cum (add_ranks df ! k) = Cum (df ! k)
    \<and> (\<forall>j < length df. Cum (df ! j) seg = Cum (df ! k) seg \<longrightarrow>
          Cum_Rank (add_ranks df ! j) seg = Cum_Rank (add_ranks df ! k) seg)
    \<and> (\<forall>j < length df. ahead (Cum (df ! j) seg) (Cum (df ! k) seg) \<longrightarrow>
          (\<exists>a b. Cum_Rank (add_ranks df ! j) seg = Some a
                \<and> Cum_Rank (add_ranks df ! k) seg = Some b \<and> a < b))
    \<and> map (\<lambda>r. Cum_Rank r Swim) (add_ranks [with_cum (Some 100), with_cum (Some 150)])
        = [Some 1, Some 2]"
proof -
  have rk: "Cum_Rank (add_ranks df ! i) seg =
           Some (1 + int (length (filter (\<lambda>r. ahead (Cum r seg) (Cum (df ! i) seg)) df)))"
    if "i < length df" for i
    using that by (simp add: add_ranks_rows rank_min_bottom_nth nan_last_ahead filter_map o_def)
  have cum: "Cum (add_ranks df ! k) = Cum (df ! k)" using assms by (simp add: add_ranks_rows)
  have tie: "Cum_Rank (add_ranks df ! j) seg = Cum_Rank (add_ranks df ! k) seg"
    if "j < length df" "Cum (df ! j) seg = Cum (df ! k) seg" for j
    using that assms by (simp add: rk)
  have strict: "\<exists>a b. Cum_Rank (add_ranks df ! j) seg = Some a
                \<and> Cum_Rank (add_ranks df ! k) seg = Some b \<and> a < b"
    if j: "j < length df" and a: "ahead (Cum (df ! j) seg) (Cum (df ! k) seg)" for j
  proof -
    have "length (filter (\<lambda>r. ahead (Cum r seg) (Cum (df ! j) seg)) df)
          < length (filter (\<lambda>r. ahead (Cum r seg) (Cum (df ! k) seg)) df)"
    proof (rule length_filter_strict[where y = "df ! j"])
      show "ahead (Cum x seg) (Cum (df ! k) seg)" if "ahead (Cum x seg) (Cum (df ! j) seg)" for x
        using that a by (rule ahead_trans)
      show "df ! j \<in> set df" using j by simp
      show "ahead (Cum (df ! j) seg) (Cum (df ! k) seg)" by (rule a)
      show "\<not> ahead (Cum (df ! j) seg) (Cum (df ! j) seg)" by (rule ahead_irrefl)
    qed
    then show ?thesis using rk[OF j] rk[OF assms] by simp
  qed
  have ex: "map (\<lambda>r. Cum_Rank r Swim) (add_ranks [with_cum (Some 100), with_cum (Some 150)])
        = [Some 1, Some 2]"
    by code_simp
  show ?thesis using rk[OF assms] cum tie strict ex by blast
qed

theorem min_rank_witness:
  "1 < length four_rows \<and> 0 < length four_rows
   \<and> Cum (four_rows ! 0) Swim = Cum (four_rows ! 1) Swim
   \<and> Cum_Rank (add_ranks four_rows ! 0) Swim = Cum_Rank (add_ranks four_rows ! 1) Swim
   \<and> 3 < length four_rows \<and> 2 < length four_rows
   \<and> ahead (Cum (four_rows ! 2) Swim) (Cum (four_rows ! 3) Swim)
   \<and> (\<exists>a b. Cum_Rank (add_ranks four_rows ! 2) Swim = Some a
            \<and> Cum_Rank (add_ranks four_rows ! 3) Swim = Some b \<and> a < b)"
proof -
  have len: "length four_rows = 4" by (simp add: four_rows_def)
  have l0: "0 < length four_rows" and l1: "1 < length four_rows"
    and l2: "2 < length four_rows" and l3: "3 < length four_rows" by (simp_all add: len)
  have eq: "Cum (four_rows ! 0) Swim = Cum (four_rows ! 1) Swim"
    by (simp add: four_rows_def with_cum_def)
  have ah: "ahead (Cum (four_rows ! 2) Swim) (Cum (four_rows ! 3) Swim)"
    by (simp add: four_rows_def with_cum_def ahead_def)
  from min_rank[OF l1, of Swim] have tie: "\<forall>j < length four_rows.
      Cum (four_rows ! j) Swim = Cum (four_rows ! 1) Swim \<longrightarrow>
          Cum_Rank (add_ranks four_rows ! j) Swim = Cum_Rank (add_ranks four_rows ! 1) Swim"
    by (elim conjE)
  from min_rank[OF l3, of Swim] have strict: "\<forall>j < length four_rows.
      ahead (Cum (four_rows ! j) Swim) (Cum (four_rows ! 3) Swim) \<longrightarrow>
          (\<exists>a b. Cum_Rank (add_ranks four_rows ! j) Swim = Some a
                \<and> Cum_Rank (add_ranks four_rows ! 3) Swim = Some b \<and> a < b)"
    by (elim conjE)
  note t = tie[rule_format, OF l0 eq] and s = strict[rule_format, OF l2 ah]
  show ?thesis using l0 l1 l2 l3 eq ah t s by (intro conjI)
qed

text \<open>Two athletes tied at 100 and one at 150: the third rank is 3, where a dense ranking
  would give 2.\<close>

theorem rank_not_dense:
  "map (\<lambda>r. Cum_Rank r Swim) (add_ranks [with_cum (Some 100), with_cum (Some 100), with_cum (Some 150)])
     = [Some 1, Some 1, Some 3]"
  by code_simp


subsection \<open>Gaps\<close>

lemma set_present: "set (present col) = {v. Some v \<in> set col}"
  by (induction col) (auto simp: present_def List.map_filter_def)

lemma col_min_None: "col_min col = None \<longleftrightarrow> (\<forall>v. Some v \<notin> set col)"
proof -
  have "present col = [] \<longleftrightarrow> set (present col) = {}" by simp
  then show ?thesis by (auto simp: col_min_def set_present split: list.splits)
qed

lemma col_min_Some:
  assumes "Some v \<in> set col"
  shows "col_min col = Some (Min {w. Some w \<in> set col})"
proof -
  from assms have "present col \<noteq> []" using set_present[of col] by auto
  then obtain a as where p: "present col = a # as" by (cases "present col") auto
  have "fold min as a = Min (set (a # as))" by (simp only: Min.set_eq_fold)
  also have "\<dots> = Min {w. Some w \<in> set col}" using set_present[of col] p by simp
  finally show ?thesis by (simp add: col_min_def p)
qed

lemma add_gaps_rows:
  "add_gaps df =
     map (\<lambda>r. r\<lparr>Cum_Gap := (\<lambda>seg. num_sub (Cum r seg) (col_min (map (\<lambda>r. Cum r seg) df)))\<rparr>) df"
  unfolding add_gaps_def segments_def
  by (simp add: o_def Let_def all_segments_updated) (auto simp: fun_eq_iff split: segment.splits)

text \<open>
  Claim C4. In gap mode, for each of the five cumulative columns, the gap of an athlete is
  NaN when they have no cumulative time, and the cumulative columns are left as they are.
  The athlete who holds the least time present in a column has gap 0 there. When the times
  present in the column lie between \<open>- 2 ^ 52\<close> and \<open>2 ^ 52\<close>, so that every difference of two
  of them is in \<open>exact_range\<close> and the program's subtraction is the integers', the gap of an
  athlete with a time is that time minus the least time present in the column, and it is
  never negative.
\<close>

theorem gap_to_leader:
  assumes "k < length df"
  shows "length (add_gaps df) = length df
    \<and> Cum (add_gaps df ! k) = Cum (df ! k)
    \<and> (Cum (df ! k) seg = None \<longrightarrow> Cum_Gap (add_gaps df ! k) seg = None)
    \<and> (\<forall>v. Cum (df ! k) seg = Some v
            \<and> (\<forall>r \<in> set df. \<forall>w. Cum r seg = Some w \<longrightarrow> - (2 ^ 52) \<le> w \<and> w \<le> 2 ^ 52) \<longrightarrow>
          Cum_Gap (add_gaps df ! k) seg = Some (v - Min {w. \<exists>r \<in> set df. Cum r seg = Some w})
          \<and> 0 \<le> v - Min {w. \<exists>r \<in> set df. Cum r seg = Some w}
          \<and> exact_range (v - Min {w. \<exists>r \<in> set df. Cum r seg = Some w}))
    \<and> (\<forall>v. Cum (df ! k) seg = Some v \<and> (\<forall>r \<in> set df. \<forall>w. Cum r seg = Some w \<longrightarrow> v \<le> w) \<longrightarrow>
          Cum_Gap (add_gaps df ! k) seg = Some 0)"
proof -
  let ?col = "map (\<lambda>r. Cum r seg) df"
  let ?S = "{w. \<exists>r \<in> set df. Cum r seg = Some w}"
  have S: "{w. Some w \<in> set ?col} = ?S" by (auto simp: image_iff) metis
  have fin: "finite ?S" unfolding S[symmetric] using set_present[of ?col, symmetric] by simp
  have gap: "Cum_Gap (add_gaps df ! k) seg = num_sub (Cum (df ! k) seg) (col_min ?col)"
    using assms by (simp add: add_gaps_rows)
  have len: "length (add_gaps df) = length df" by (simp add: add_gaps_rows)
  have cum: "Cum (add_gaps df ! k) = Cum (df ! k)" using assms by (simp add: add_gaps_rows)
  have none: "Cum_Gap (add_gaps df ! k) seg = None" if "Cum (df ! k) seg = None"
    using that gap by (simp add: num_sub_def)
  have some: "Cum_Gap (add_gaps df ! k) seg = Some (v - Min ?S) \<and> 0 \<le> v - Min ?S"
    if v: "Cum (df ! k) seg = Some v" for v
  proof -
    have mem: "Some v \<in> set ?col" using assms v by (auto simp: image_iff intro: bexI[of _ "df ! k"])
    then have "col_min ?col = Some (Min ?S)" using col_min_Some[OF mem] S by simp
    moreover have "v \<in> ?S" using assms v by (auto intro: bexI[of _ "df ! k"])
    then have "Min ?S \<le> v" using fin by (rule_tac Min_le)
    ultimately show ?thesis using gap v by (simp add: num_sub_def)
  qed
  have bounded: "Cum_Gap (add_gaps df ! k) seg = Some (v - Min ?S) \<and> 0 \<le> v - Min ?S
          \<and> exact_range (v - Min ?S)"
    if "Cum (df ! k) seg = Some v
         \<and> (\<forall>r \<in> set df. \<forall>w. Cum r seg = Some w \<longrightarrow> - (2 ^ 52) \<le> w \<and> w \<le> 2 ^ 52)" for v
  proof -
    from that have v: "Cum (df ! k) seg = Some v"
      and b: "\<forall>w \<in> ?S. - (2 ^ 52) \<le> w \<and> w \<le> 2 ^ 52" by auto
    have vS: "v \<in> ?S" using assms v by (auto intro: bexI[of _ "df ! k"])
    then have "?S \<noteq> {}" by blast
    with fin have mS: "Min ?S \<in> ?S" by (rule Min_in)
    have pow: "(2::int) ^ 53 = 2 * 2 ^ 52" by simp
    from b vS mS have "- (2 ^ 52) \<le> v" "v \<le> 2 ^ 52" "- (2 ^ 52) \<le> Min ?S" "Min ?S \<le> 2 ^ 52"
      by blast+
    then have "exact_range (v - Min ?S)" unfolding exact_range_def pow by linarith
    with some[OF v] show ?thesis by simp
  qed
  have leader: "Cum_Gap (add_gaps df ! k) seg = Some 0"
    if "Cum (df ! k) seg = Some v \<and> (\<forall>r \<in> set df. \<forall>w. Cum r seg = Some w \<longrightarrow> v \<le> w)" for v
  proof -
    from that have v: "Cum (df ! k) seg = Some v" and le: "\<forall>w \<in> ?S. v \<le> w" by auto
    have "v \<in> ?S" using assms v by (auto intro: bexI[of _ "df ! k"])
    then have "Min ?S = v" using fin le by (intro Min_eqI) auto
    with some[OF v] show ?thesis by simp
  qed
  show ?thesis
  proof (intro conjI allI impI)
    show "length (add_gaps df) = length df" by (rule len)
    show "Cum (add_gaps df ! k) = Cum (df ! k)" by (rule cum)
  next
    assume "Cum (df ! k) seg = None"
    then show "Cum_Gap (add_gaps df ! k) seg = None" by (rule none)
  next
    fix v assume h: "Cum (df ! k) seg = Some v
         \<and> (\<forall>r \<in> set df. \<forall>w. Cum r seg = Some w \<longrightarrow> - (2 ^ 52) \<le> w \<and> w \<le> 2 ^ 52)"
    show "Cum_Gap (add_gaps df ! k) seg = Some (v - Min ?S)"
      by (rule bounded[OF h, THEN conjunct1])
    show "0 \<le> v - Min ?S" by (rule bounded[OF h, THEN conjunct2, THEN conjunct1])
    show "exact_range (v - Min ?S)" by (rule bounded[OF h, THEN conjunct2, THEN conjunct2])
  next
    fix v assume "Cum (df ! k) seg = Some v
        \<and> (\<forall>r \<in> set df. \<forall>w. Cum r seg = Some w \<longrightarrow> v \<le> w)"
    then show "Cum_Gap (add_gaps df ! k) seg = Some 0" by (rule leader)
  qed
qed

theorem gap_to_leader_witness:
  "3 < length four_rows \<and> Cum (four_rows ! 3) Run = None
   \<and> Cum_Gap (add_gaps four_rows ! 3) Run = None
   \<and> 2 < length four_rows \<and> Cum (four_rows ! 2) Run = Some 150
   \<and> Cum_Gap (add_gaps four_rows ! 2) Run
        = Some (150 - Min {w. \<exists>r \<in> set four_rows. Cum r Run = Some w})
   \<and> 0 \<le> 150 - Min {w. \<exists>r \<in> set four_rows. Cum r Run = Some w}
   \<and> exact_range (150 - Min {w. \<exists>r \<in> set four_rows. Cum r Run = Some w})
   \<and> 0 < length four_rows \<and> Cum (four_rows ! 0) Run = Some 100
   \<and> Cum_Gap (add_gaps four_rows ! 0) Run = Some 0"
proof -
  have len: "length four_rows = 4" by (simp add: four_rows_def)
  have l0: "0 < length four_rows" and l2: "2 < length four_rows" and l3: "3 < length four_rows"
    by (simp_all add: len)
  have c3: "Cum (four_rows ! 3) Run = None" by (simp add: four_rows_def with_cum_def)
  have c2: "Cum (four_rows ! 2) Run = Some 150" by (simp add: four_rows_def with_cum_def)
  have c0: "Cum (four_rows ! 0) Run = Some 100" by (simp add: four_rows_def with_cum_def)
  have least: "\<forall>r \<in> set four_rows. \<forall>w. Cum r Run = Some w \<longrightarrow> 100 \<le> w"
    by (simp add: four_rows_def with_cum_def)
  have bound: "\<forall>r \<in> set four_rows. \<forall>w. Cum r Run = Some w \<longrightarrow> - (2 ^ 52) \<le> w \<and> w \<le> 2 ^ 52"
    by (simp add: four_rows_def with_cum_def)
  note T3 = gap_to_leader[OF l3, of Run]
  note T2 = gap_to_leader[OF l2, of Run]
  note T0 = gap_to_leader[OF l0, of Run]
  note g3 = T3[THEN conjunct2, THEN conjunct2, THEN conjunct1, THEN mp, OF c3]
  note g2 = T2[THEN conjunct2, THEN conjunct2, THEN conjunct2, THEN conjunct1, THEN spec,
               THEN mp, OF conjI[OF c2 bound]]
  note g0 = T0[THEN conjunct2, THEN conjunct2, THEN conjunct2, THEN conjunct2, THEN spec,
               THEN mp, OF conjI[OF c0 least]]
  show ?thesis
    by (intro conjI; (rule l0 l2 l3 c3 g3 c2 g2[THEN conjunct1]
          g2[THEN conjunct2, THEN conjunct1] g2[THEN conjunct2, THEN conjunct2] c0 g0))
qed


subsection \<open>The highlight\<close>

text \<open>A name is never empty: it holds at least the space between first and last name.\<close>

lemma athlete_name_not_empty: "athlete_name r \<noteq> []"
  by (simp add: athlete_name_def)

lemma athlete_trace_hover:
  "athlete_trace mode bound ttl (Some h) ia =
     (athlete_trace mode bound ttl None ia)
       \<lparr>trace_opacity := (if h = athlete_name (snd ia) then 1 else if h \<noteq> [] then 1 / 5 else 3 / 5)\<rparr>"
  by (simp add: athlete_trace_def Let_def truthy_def)

lemma athlete_trace_plain:
  "trace_opacity (athlete_trace mode bound ttl None ia) = 3 / 5"
  "trace_name (athlete_trace mode bound ttl hov ia) = athlete_name (snd ia)"
  by (simp_all add: athlete_trace_def Let_def truthy_def)

text \<open>
  Claim C9. For every table, mode, file name and non-empty name \<open>h\<close>, which every athlete
  name is, the figure drawn with \<open>h\<close> highlighted is the figure drawn without highlight
  with nothing changed but the opacity of its lines: points, names, hover labels, colours,
  order and layout are the same; with the highlight, the lines named \<open>h\<close> have opacity 1 and
  all others 0.2; without it every line has opacity 0.6.
\<close>

theorem highlight_changes_opacity_only:
  assumes "h \<noteq> []"
  shows "create_figure df mode filename (Some h) =
           (create_figure df mode filename None)
             \<lparr>fig_data := map (\<lambda>t. t\<lparr>trace_opacity := (if trace_name t = h then 1 else 1 / 5)\<rparr>)
                               (fig_data (create_figure df mode filename None))\<rparr>
    \<and> map trace_opacity (fig_data (create_figure df mode filename None))
        = replicate (length (fig_data (create_figure df mode filename None))) (3 / 5)"
proof -
  have 1: "athlete_trace m b t (Some h) ia =
        (athlete_trace m b t None ia)\<lparr>trace_opacity :=
           (if trace_name (athlete_trace m b t None ia) = h then 1 else 1 / 5)\<rparr>" for m b t ia
    using assms by (auto simp: athlete_trace_hover athlete_trace_plain)
  show ?thesis
    unfolding create_figure_def Let_def
    by (simp add: 1 o_def athlete_trace_plain map_replicate_const)
qed


subsection \<open>Complete and truncated lines\<close>

lemma segment_loop_full:
  assumes "\<And>seg. val seg \<noteq> None"
  shows "segment_loop val (enumerate 0 segments) ([Some 0], [x_values ! 0])
           = ([Some 0, val Swim, val T1, val Bike, val T2, val Run], x_values)"
proof -
  from assms[of Swim] assms[of T1] assms[of Bike] assms[of T2] assms[of Run]
  obtain a b c d e where "val Swim = Some a" "val T1 = Some b" "val Bike = Some c"
    "val T2 = Some d" "val Run = Some e" by auto
  then show ?thesis by (simp add: segments_def x_values_def)
qed

lemma num_add_eq_Some: "num_add a b = Some c \<longleftrightarrow> (\<exists>x y. a = Some x \<and> b = Some y \<and> c = x + y)"
  by (auto simp: num_add_def split: option.splits)

lemma finisher_has_all_gaps:
  assumes p: "process_data contents filename = Inr (Some df, msg)"
    and r: "r \<in> set df" and run: "Cum r Run \<noteq> None"
  shows "num_sub (Cum r seg) (col_min (map (\<lambda>r. Cum r seg) df)) \<noteq> None"
proof -
  note c = process_data_rows(2)[OF p r]
  from run obtain t where "Cum r Run = Some t" by auto
  then obtain a b c' d e where s: "Secs r (Seg Swim) = Some a" "Secs r (Seg T1) = Some b"
    "Secs r (Seg Bike) = Some c'" "Secs r (Seg T2) = Some d" "Secs r (Seg Run) = Some e"
    by (subst (asm) c) (auto simp: num_add_eq_Some)
  have "\<exists>v. Cum r seg = Some v"
    by (subst c) (simp add: s split: segment.splits)
  then obtain v where v: "Cum r seg = Some v" ..
  with r have "Some v \<in> set (map (\<lambda>r. Cum r seg) df)" by (auto simp: image_iff intro: bexI[of _ r])
  then have "col_min (map (\<lambda>r. Cum r seg) df) \<noteq> None" by (auto simp: col_min_None)
  with v show ?thesis by (auto simp: num_sub_def)
qed

text \<open>
  Claim C10. In every mode but \<open>position\<close>, on a table that \<open>process_data\<close> returned, the
  figure has one line for each row with a cumulative Run time and no other; every line
  belongs to such a row, runs over all six anchors, from Start to Run, and has no NaN among
  its six values: a cumulative Run time is there only when all five durations are, so that
  all five gaps are there too.
\<close>

theorem gap_lines_complete:
  assumes "process_data contents filename = Inr (Some df, msg)" and "mode \<noteq> ''position''"
  shows "length (fig_data (create_figure df mode ttl hov))
           = length (filter (\<lambda>r. Cum r Run \<noteq> None) df)
    \<and> (\<forall>t \<in> set (fig_data (create_figure df mode ttl hov)).
          (\<exists>r \<in> set df. Cum r Run \<noteq> None \<and> trace_name t = athlete_name r)
          \<and> trace_x t = x_values \<and> length (trace_y t) = 6 \<and> None \<notin> set (trace_y t))"
proof -
  let ?g = "\<lambda>r. r\<lparr>Cum_Gap := (\<lambda>seg. num_sub (Cum r seg) (col_min (map (\<lambda>r. Cum r seg) df)))\<rparr>"
  let ?kept = "filter (\<lambda>r. Cum r Run \<noteq> None) (add_gaps df)"
  let ?ordered = "sort_values_Position ?kept"
  have data: "fig_data (create_figure df mode ttl hov)
      = map (athlete_trace mode None ''Time Gap to Leader (seconds)'' hov) (enumerate 0 ?ordered)"
    using assms(2) by (simp add: create_figure_def Let_def)
  have kept: "?kept = map ?g (filter (\<lambda>r. Cum r Run \<noteq> None) df)"
    by (simp add: add_gaps_rows filter_map o_def)
  have len: "length (fig_data (create_figure df mode ttl hov))
           = length (filter (\<lambda>r. Cum r Run \<noteq> None) df)"
    unfolding data kept by (simp add: sort_values_Position_def)
  have each: "(\<exists>r \<in> set df. Cum r Run \<noteq> None \<and> trace_name t = athlete_name r)
          \<and> trace_x t = x_values \<and> length (trace_y t) = 6 \<and> None \<notin> set (trace_y t)"
    if t: "t \<in> set (fig_data (create_figure df mode ttl hov))" for t
  proof -
    from t obtain ia where ia: "ia \<in> set (enumerate 0 ?ordered)"
      and tr: "t = athlete_trace mode None ''Time Gap to Leader (seconds)'' hov ia"
      unfolding data by auto
    from ia have "fst ia < length ?ordered" "?ordered ! fst ia = snd ia"
      by (simp_all add: in_set_enumerate_eq)
    then have "snd ia \<in> set ?ordered" using nth_mem[of "fst ia" ?ordered] by simp
    then have "snd ia \<in> set ?kept" by (simp add: sort_values_Position_def)
    then obtain r where r: "r \<in> set df" "Cum r Run \<noteq> None" and sr: "snd ia = ?g r"
      unfolding kept by auto
    have gaps: "Cum_Gap (snd ia) seg \<noteq> None" for seg
      unfolding sr using finisher_has_all_gaps[OF assms(1) r] by simp
    have nm: "athlete_name (snd ia) = athlete_name r"
      unfolding sr by (simp add: athlete_name_def)
    have walk: "segment_loop (\<lambda>seg. Cum_Gap (snd ia) seg) (enumerate 0 segments)
                  ([Some 0], [x_values ! 0])
           = ([Some 0, Cum_Gap (snd ia) Swim, Cum_Gap (snd ia) T1, Cum_Gap (snd ia) Bike,
               Cum_Gap (snd ia) T2, Cum_Gap (snd ia) Run], x_values)"
      by (rule segment_loop_full) (rule gaps)
    have x: "trace_x t = x_values" and y: "trace_y t = [Some 0, Cum_Gap (snd ia) Swim,
         Cum_Gap (snd ia) T1, Cum_Gap (snd ia) Bike, Cum_Gap (snd ia) T2, Cum_Gap (snd ia) Run]"
      and n: "trace_name t = athlete_name r"
      unfolding tr using assms(2) by (simp_all add: athlete_trace_def Let_def walk nm)
    have "None \<notin> set (trace_y t)" unfolding y
      using gaps[of Swim] gaps[of T1] gaps[of Bike] gaps[of T2] gaps[of Run] by auto
    with r x y n show ?thesis by auto
  qed
  show ?thesis using len each by blast
qed


text \<open>In position mode every cell of a rank column holds a number, the cells of the missing
  times too, so the inner loop never breaks and the padding never applies: every line has
  its six points.\<close>

lemma position_lines_complete:
  assumes "t \<in> set (fig_data (create_figure df ''position'' ttl hov))"
  shows "trace_x t = x_values \<and> length (trace_y t) = 6 \<and> None \<notin> set (trace_y t)"
proof -
  let ?ordered = "sort_values_Position (add_ranks df)"
  let ?bound = "frame_max (map (\<lambda>seg. map (\<lambda>r. Cum_Rank r seg) (add_ranks df)) segments)"
  have data: "fig_data (create_figure df ''position'' ttl hov)
      = map (athlete_trace ''position'' ?bound ''Rank'' hov) (enumerate 0 ?ordered)"
    by (simp add: create_figure_def Let_def)
  from assms obtain ia where ia: "ia \<in> set (enumerate 0 ?ordered)"
    and tr: "t = athlete_trace ''position'' ?bound ''Rank'' hov ia"
    unfolding data by auto
  from ia have "fst ia < length ?ordered" "?ordered ! fst ia = snd ia"
    by (simp_all add: in_set_enumerate_eq)
  then have "snd ia \<in> set ?ordered" using nth_mem[of "fst ia" ?ordered] by simp
  then have "snd ia \<in> set (add_ranks df)" by (simp add: sort_values_Position_def)
  then obtain k where k: "k < length df" and sr: "snd ia = add_ranks df ! k"
    by (auto simp: in_set_conv_nth add_ranks_rows(1))
  have ranks: "Cum_Rank (snd ia) seg \<noteq> None" for seg
    unfolding sr using k by (simp add: add_ranks_rows(2) rank_min_bottom_nth)
  have walk: "segment_loop (\<lambda>seg. Cum_Rank (snd ia) seg) (enumerate 0 segments)
                  ([Some 0], [x_values ! 0])
           = ([Some 0, Cum_Rank (snd ia) Swim, Cum_Rank (snd ia) T1, Cum_Rank (snd ia) Bike,
               Cum_Rank (snd ia) T2, Cum_Rank (snd ia) Run], x_values)"
    by (rule segment_loop_full) (rule ranks)
  have x: "trace_x t = x_values" and y: "trace_y t = [Some 0, Cum_Rank (snd ia) Swim,
         Cum_Rank (snd ia) T1, Cum_Rank (snd ia) Bike, Cum_Rank (snd ia) T2, Cum_Rank (snd ia) Run]"
    unfolding tr by (simp_all add: athlete_trace_def Let_def walk segments_nth)
  have "None \<notin> set (trace_y t)" unfolding y
    using ranks[of Swim] ranks[of T1] ranks[of Bike] ranks[of T2] ranks[of Run] by auto
  with x y show ?thesis by simp
qed


subsection \<open>The lines of a figure\<close>

text \<open>Sorting commutes with a change of the rows that the sort key does not see.\<close>

lemma insort_key_map:
  "insort_key f (g x) (map g xs) = map g (insort_key (\<lambda>a. f (g a)) x xs)"
  by (induction xs) simp_all

lemma sort_key_map: "sort_key f (map g xs) = map g (sort_key (\<lambda>a. f (g a)) xs)"
  by (induction xs) (simp_all add: insort_key_map)

lemma map_enumerate_snd:
  assumes "\<And>i r. r \<in> set xs \<Longrightarrow> f (i, r) = g r"
  shows "map f (enumerate n xs) = map g xs"
  using assms by (induction xs arbitrary: n) simp_all

lemma position_figure:
  "map (\<lambda>t. (trace_name t, trace_x t, trace_y t))
       (fig_data (create_figure df ''position'' ttl hov))
     = map (\<lambda>r. (athlete_name r, x_values, Some 0 # map (Cum_Rank r) segments))
           (sort_values_Position (add_ranks df))"
proof -
  let ?ordered = "sort_values_Position (add_ranks df)"
  let ?bound = "frame_max (map (\<lambda>seg. map (\<lambda>r. Cum_Rank r seg) (add_ranks df)) segments)"
  have data: "fig_data (create_figure df ''position'' ttl hov)
      = map (athlete_trace ''position'' ?bound ''Rank'' hov) (enumerate 0 ?ordered)"
    by (simp add: create_figure_def Let_def)
  have each: "(\<lambda>ia. (trace_name (athlete_trace ''position'' ?bound ''Rank'' hov ia),
                      trace_x (athlete_trace ''position'' ?bound ''Rank'' hov ia),
                      trace_y (athlete_trace ''position'' ?bound ''Rank'' hov ia))) (i, r)
        = (athlete_name r, x_values, Some 0 # map (Cum_Rank r) segments)"
    if "r \<in> set ?ordered" for i r
  proof -
    from that have "r \<in> set (add_ranks df)" by (simp add: sort_values_Position_def)
    then obtain k where k: "k < length df" and sr: "r = add_ranks df ! k"
      by (auto simp: in_set_conv_nth add_ranks_rows(1))
    have ranks: "Cum_Rank r seg \<noteq> None" for seg
      unfolding sr using k by (simp add: add_ranks_rows(2) rank_min_bottom_nth)
    have walk: "segment_loop (\<lambda>seg. Cum_Rank r seg) (enumerate 0 segments)
                  ([Some 0], [x_values ! 0])
           = ([Some 0, Cum_Rank r Swim, Cum_Rank r T1, Cum_Rank r Bike,
               Cum_Rank r T2, Cum_Rank r Run], x_values)"
      by (rule segment_loop_full) (rule ranks)
    have "map (Cum_Rank r) segments = [Cum_Rank r Swim, Cum_Rank r T1, Cum_Rank r Bike,
               Cum_Rank r T2, Cum_Rank r Run]" by (simp add: segments_def)
    then show ?thesis
      by (simp add: athlete_trace_def Let_def walk segments_nth)
  qed
  have "map (\<lambda>t. (trace_name t, trace_x t, trace_y t))
       (fig_data (create_figure df ''position'' ttl hov))
      = map (\<lambda>ia. (trace_name (athlete_trace ''position'' ?bound ''Rank'' hov ia),
                      trace_x (athlete_trace ''position'' ?bound ''Rank'' hov ia),
                      trace_y (athlete_trace ''position'' ?bound ''Rank'' hov ia)))
            (enumerate 0 ?ordered)"
    by (simp only: data map_map o_def)
  also have "\<dots> = map (\<lambda>r. (athlete_name r, x_values, Some 0 # map (Cum_Rank r) segments)) ?ordered"
    by (rule map_enumerate_snd) (rule each)
  finally show ?thesis .
qed

lemma gap_figure:
  assumes p: "process_data contents filename = Inr (Some df, msg)" and m: "mode \<noteq> ''position''"
  shows "map (\<lambda>t. (trace_name t, trace_x t, trace_y t))
       (fig_data (create_figure df mode ttl hov))
     = map (\<lambda>r. (athlete_name r, x_values,
                  Some 0 # map (\<lambda>seg. num_sub (Cum r seg) (col_min (map (\<lambda>r. Cum r seg) df)))
                               segments))
           (sort_values_Position (filter (\<lambda>r. Cum r Run \<noteq> None) df))"
proof -
  let ?g = "\<lambda>r. r\<lparr>Cum_Gap := (\<lambda>seg. num_sub (Cum r seg) (col_min (map (\<lambda>r. Cum r seg) df)))\<rparr>"
  let ?fin = "sort_values_Position (filter (\<lambda>r. Cum r Run \<noteq> None) df)"
  let ?tr = "athlete_trace mode None ''Time Gap to Leader (seconds)'' hov"
  have ord: "sort_values_Position (filter (\<lambda>r. Cum r Run \<noteq> None) (add_gaps df)) = map ?g ?fin"
    by (simp add: add_gaps_rows filter_map o_def sort_values_Position_def sort_key_map
             del: not_None_eq)
  have data: "fig_data (create_figure df mode ttl hov) = map ?tr (enumerate 0 (map ?g ?fin))"
    using m by (simp add: create_figure_def Let_def ord del: not_None_eq)
  have each: "(\<lambda>ia. (trace_name (?tr ia), trace_x (?tr ia), trace_y (?tr ia))) (i, r')
        = (\<lambda>r'. (athlete_name r', x_values, Some 0 # map (Cum_Gap r') segments)) r'"
    if "r' \<in> set (map ?g ?fin)" for i r'
  proof -
    from that obtain r where r: "r \<in> set df" "Cum r Run \<noteq> None" and sr: "r' = ?g r"
      by (auto simp: sort_values_Position_def)
    have gaps: "Cum_Gap r' seg \<noteq> None" for seg
      unfolding sr using finisher_has_all_gaps[OF p r] by simp
    have walk: "segment_loop (\<lambda>seg. Cum_Gap r' seg) (enumerate 0 segments)
                  ([Some 0], [x_values ! 0])
           = ([Some 0, Cum_Gap r' Swim, Cum_Gap r' T1, Cum_Gap r' Bike,
               Cum_Gap r' T2, Cum_Gap r' Run], x_values)"
      by (rule segment_loop_full) (rule gaps)
    have "map (Cum_Gap r') segments = [Cum_Gap r' Swim, Cum_Gap r' T1, Cum_Gap r' Bike,
               Cum_Gap r' T2, Cum_Gap r' Run]" by (simp add: segments_def)
    then show ?thesis
      using m by (simp add: athlete_trace_def Let_def walk)
  qed
  have "map (\<lambda>t. (trace_name t, trace_x t, trace_y t)) (fig_data (create_figure df mode ttl hov))
      = map (\<lambda>ia. (trace_name (?tr ia), trace_x (?tr ia), trace_y (?tr ia)))
            (enumerate 0 (map ?g ?fin))"
    by (simp only: data map_map o_def)
  also have "\<dots> = map (\<lambda>r'. (athlete_name r', x_values, Some 0 # map (Cum_Gap r') segments))
                      (map ?g ?fin)"
    by (rule map_enumerate_snd) (rule each)
  also have "\<dots> = map (\<lambda>r. (athlete_name r, x_values,
                  Some 0 # map (\<lambda>seg. num_sub (Cum r seg) (col_min (map (\<lambda>r. Cum r seg) df)))
                               segments)) ?fin"
    by (simp add: o_def athlete_name_def)
  finally show ?thesis .
qed


subsection \<open>The race of three\<close>

lemma race_processed: "process_data (Table three_athletes) ''race.csv'' = Inr (Some race, None)"
proof -
  have "case process_data (Table three_athletes) ''race.csv'' of
          Inr (Some df, None) \<Rightarrow> True | _ \<Rightarrow> False"
    by code_simp
  then obtain df where "process_data (Table three_athletes) ''race.csv'' = Inr (Some df, None)"
    by (auto split: sum.splits option.splits prod.splits)
  then show ?thesis by (simp add: race_def)
qed

lemma race_cumulative:
  "map (\<lambda>r. (athlete_name r, Cum r T1, Cum r Bike, Cum r Run)) race
     = [(''Ann A'', Some 660, Some 2460, Some 3710),
        (''Bea B'', Some 730, Some 2590, Some 3905),
        (''Cy C'', Some 695, None, None)]"
  by code_simp

lemma race_ranked:
  "map (\<lambda>r. (athlete_name r, Some 0 # map (Cum_Rank r) segments))
       (sort_values_Position (add_ranks race))
     = [(''Ann A'', [Some 0, Some 1, Some 1, Some 1, Some 1, Some 1]),
        (''Bea B'', [Some 0, Some 3, Some 3, Some 2, Some 2, Some 2]),
        (''Cy C'', [Some 0, Some 2, Some 2, Some 3, Some 3, Some 3])]"
  by code_simp

lemma race_finishers:
  "map (\<lambda>r. (athlete_name r,
              Some 0 # map (\<lambda>seg. num_sub (Cum r seg) (col_min (map (\<lambda>r. Cum r seg) race)))
                           segments))
       (sort_values_Position (filter (\<lambda>r. Cum r Run \<noteq> None) race))
     = [(''Ann A'', [Some 0, Some 0, Some 0, Some 0, Some 0, Some 0]),
        (''Bea B'', [Some 0, Some 60, Some 70, Some 130, Some 135, Some 195])]"
  by code_simp


lemma race_gap_names:
  "map trace_name (fig_data (create_figure race ''time_gap'' ''race.csv'' hov)) = [''Ann A'', ''Bea B'']"
proof -
  have ne: "''time_gap'' \<noteq> ''position''" by simp
  have "map trace_name (fig_data (create_figure race ''time_gap'' ''race.csv'' hov))
      = map fst (map (\<lambda>t. (trace_name t, trace_x t, trace_y t))
                     (fig_data (create_figure race ''time_gap'' ''race.csv'' hov)))"
    by (simp add: o_def)
  also have "\<dots> = map fst (map (\<lambda>r. (athlete_name r,
              Some 0 # map (\<lambda>seg. num_sub (Cum r seg) (col_min (map (\<lambda>r. Cum r seg) race)))
                           segments))
       (sort_values_Position (filter (\<lambda>r. Cum r Run \<noteq> None) race)))"
    unfolding gap_figure[OF race_processed ne] by (simp add: o_def)
  also have "\<dots> = [''Ann A'', ''Bea B'']"
    unfolding race_finishers by simp
  finally show ?thesis .
qed

text \<open>The highlight on the race of three, in gap mode, with Bea hovered.\<close>

theorem highlight_changes_opacity_only_witness:
  "''Bea B'' \<noteq> []
   \<and> map trace_name (fig_data (create_figure race ''time_gap'' ''race.csv'' (Some ''Bea B'')))
       = [''Ann A'', ''Bea B'']
   \<and> map trace_opacity (fig_data (create_figure race ''time_gap'' ''race.csv'' (Some ''Bea B'')))
       = [1 / 5, 1]
   \<and> map trace_opacity (fig_data (create_figure race ''time_gap'' ''race.csv'' None))
       = [3 / 5, 3 / 5]"
proof -
  have h: "''Bea B'' \<noteq> []" by simp
  let ?plain = "fig_data (create_figure race ''time_gap'' ''race.csv'' None)"
  note T = highlight_changes_opacity_only[OF h, of race "''time_gap''" "''race.csv''"]
  have len: "length ?plain = 2"
    using arg_cong[OF race_gap_names[of None], of length] by simp
  from T have "fig_data (create_figure race ''time_gap'' ''race.csv'' (Some ''Bea B''))
      = map (\<lambda>t. t\<lparr>trace_opacity := (if trace_name t = ''Bea B'' then 1 else 1 / 5)\<rparr>) ?plain"
    by simp
  then have "map trace_opacity (fig_data (create_figure race ''time_gap'' ''race.csv'' (Some ''Bea B'')))
      = map (\<lambda>n. if n = ''Bea B'' then 1 else 1 / 5) (map trace_name ?plain)"
    by (simp add: o_def)
  also have "\<dots> = [1 / 5, 1]" unfolding race_gap_names by simp
  finally have a: "map trace_opacity (fig_data (create_figure race ''time_gap'' ''race.csv'' (Some ''Bea B'')))
      = [1 / 5, 1]" .
  from T len have b: "map trace_opacity ?plain = [3 / 5, 3 / 5]"
    by (simp add: numeral_2_eq_2)
  show ?thesis using h race_gap_names[of "Some ''Bea B''"] a b by (intro conjI)
qed

text \<open>The gap lines of the race of three: Ann and Bea, six points each.\<close>

theorem gap_lines_complete_witness:
  "process_data (Table three_athletes) ''race.csv'' = Inr (Some race, None)
   \<and> ''time_gap'' \<noteq> ''position''
   \<and> length (fig_data (create_figure race ''time_gap'' ''race.csv'' None)) = 2
   \<and> map trace_x (fig_data (create_figure race ''time_gap'' ''race.csv'' None))
       = [x_values, x_values]
   \<and> map (\<lambda>t. length (trace_y t)) (fig_data (create_figure race ''time_gap'' ''race.csv'' None))
       = [6, 6]"
proof -
  have ne: "''time_gap'' \<noteq> ''position''" by simp
  let ?data = "fig_data (create_figure race ''time_gap'' ''race.csv'' None)"
  note T = gap_lines_complete[OF race_processed ne, of "''race.csv''" None]
  have len: "length ?data = 2"
    using arg_cong[OF race_gap_names[of None], of length] by simp
  then obtain a b where ab: "?data = [a, b]"
    by (auto simp: length_Suc_conv numeral_2_eq_2)
  from T have each: "\<forall>t \<in> set ?data. trace_x t = x_values \<and> length (trace_y t) = 6"
    by blast
  have x: "map trace_x ?data = [x_values, x_values]"
    and y: "map (\<lambda>t. length (trace_y t)) ?data = [6, 6]"
    using each unfolding ab by simp_all
  show ?thesis using race_processed ne len x y by (intro conjI)
qed

text \<open>
  Claim C5 has an athlete without a cumulative Run time absent from the gap view, and in
  position mode drawn with a line that stops at the first missing value and ends in one
  padding point, at the x-position of the stop and at the maximal rank. The program does
  the first and not the second. In the race of three Cy has no Bike time, hence no
  cumulative Bike, T2 and Run time. In gap mode the figure has the lines of Ann and Bea
  only. In position mode Cy's line runs over all six anchors: the missing times have rank 3,
  nothing is missing among the ranks, so the line is neither cut after T1 nor padded. The
  claim would have it be the four points (0, 0), (0.5, 2), (0.6, 2), (0.6, 3).
\<close>

theorem dnf_line_in_position_mode:
  "process_data (Table three_athletes) ''race.csv'' = Inr (Some race, None)
   \<and> map (\<lambda>r. (athlete_name r, Cum r T1, Cum r Bike, Cum r Run)) race
       = [(''Ann A'', Some 660, Some 2460, Some 3710),
          (''Bea B'', Some 730, Some 2590, Some 3905),
          (''Cy C'', Some 695, None, None)]
   \<and> map (\<lambda>t. (trace_name t, trace_x t, trace_y t))
          (fig_data (create_figure race ''position'' ''race.csv'' None))
       = [(''Ann A'', x_values, [Some 0, Some 1, Some 1, Some 1, Some 1, Some 1]),
          (''Bea B'', x_values, [Some 0, Some 3, Some 3, Some 2, Some 2, Some 2]),
          (''Cy C'', x_values, [Some 0, Some 2, Some 2, Some 3, Some 3, Some 3])]
   \<and> map trace_name (fig_data (create_figure race ''time_gap'' ''race.csv'' None))
       = [''Ann A'', ''Bea B'']"
proof -
  have "map (\<lambda>t. (trace_name t, trace_x t, trace_y t))
          (fig_data (create_figure race ''position'' ''race.csv'' None))
      = map (\<lambda>p. (fst p, x_values, snd p))
            (map (\<lambda>r. (athlete_name r, Some 0 # map (Cum_Rank r) segments))
                 (sort_values_Position (add_ranks race)))"
    unfolding position_figure by (simp add: o_def)
  also have "\<dots> = [(''Ann A'', x_values, [Some 0, Some 1, Some 1, Some 1, Some 1, Some 1]),
          (''Bea B'', x_values, [Some 0, Some 3, Some 3, Some 2, Some 2, Some 2]),
          (''Cy C'', x_values, [Some 0, Some 2, Some 2, Some 3, Some 3, Some 3])]"
    unfolding race_ranked by simp
  finally show ?thesis
    using race_processed race_cumulative race_gap_names[of None] by (intro conjI)
qed


subsection \<open>Errors\<close>






end
